theory Spec2Isabelle
  imports Main "HOL-Library.Word"
begin

section \<open>JavaScript strings\<close>

text \<open>
  A JavaScript string is a sequence of UTF-16 code units. \<open>js\<close> embeds an ASCII
  literal of the source.
\<close>

type_synonym cu = "16 word"
type_synonym jsstring = "cu list"

definition js :: "string \<Rightarrow> jsstring" where
  "js s = map of_char s"

text \<open>
  White space and line terminators of ECMAScript: what \<open>\s\<close> matches and what
  \<open>String.prototype.trim\<close> removes.
\<close>

definition is_space :: "cu \<Rightarrow> bool" where
  "is_space c =
     (c = 0x09 \<or> c = 0x0A \<or> c = 0x0B \<or> c = 0x0C \<or> c = 0x0D \<or> c = 0x20 \<or> c = 0xA0
      \<or> c = 0x1680 \<or> (0x2000 \<le> c \<and> c \<le> 0x200A) \<or> c = 0x2028 \<or> c = 0x2029
      \<or> c = 0x202F \<or> c = 0x205F \<or> c = 0x3000 \<or> c = 0xFEFF)"

definition is_digit :: "cu \<Rightarrow> bool" where
  "is_digit c = (0x30 \<le> c \<and> c \<le> 0x39)"

definition trim :: "jsstring \<Rightarrow> jsstring" where
  "trim s = rev (dropWhile is_space (rev (dropWhile is_space s)))"

section \<open>Regular expressions\<close>

text \<open>
  The patterns of the source are regular-expression literals. They are embedded as
  terms of \<open>regex\<close> and run by a backtracking matcher that returns every way a
  pattern can match at the start of a string, in the priority order of ECMAScript
  (a greedy quantifier tries one more iteration first, a lazy one tries to stop
  first, an alternative tries its left side first), so that the head of the list is
  the match that \<open>RegExp.prototype.exec\<close> reports.

  Every pattern of the source is written in ASCII. Under the flag \<open>i\<close> a code unit
  above 127 never canonicalizes to an ASCII one, so an ASCII letter of a pattern
  matches exactly its two cases; \<open>canon\<close> folds the ASCII letters only.
  No pattern of the source has a capturing group under a quantifier, a
  backreference, a look-around or the flags \<open>m\<close>, \<open>u\<close>, \<open>y\<close>.
\<close>

record flags =
  global :: bool
  ignoreCase :: bool
  dotAll :: bool

datatype citem = One cu | Range cu cu | SpaceCls | DigitCls

datatype atom = Lit cu | Dot | Cls "citem list" | NCls "citem list"

datatype regex =
    Eps
  | Atom atom
  | Seq regex regex
  | Alt regex regex
  | Star regex
  | LazyStar regex
  | Group nat regex
  | Eoi

definition canon :: "cu \<Rightarrow> cu" where
  "canon c = (if 0x61 \<le> c \<and> c \<le> 0x7A then c - 0x20 else c)"

definition lower :: "cu \<Rightarrow> cu" where
  "lower c = (if 0x41 \<le> c \<and> c \<le> 0x5A then c + 0x20 else c)"

fun item_match :: "bool \<Rightarrow> citem \<Rightarrow> cu \<Rightarrow> bool" where
  "item_match ic (One a) c = (if ic then canon a = canon c else a = c)"
| "item_match ic (Range lo hi) c =
     ((lo \<le> c \<and> c \<le> hi) \<or>
      (ic \<and> ((lo \<le> canon c \<and> canon c \<le> hi) \<or> (lo \<le> lower c \<and> lower c \<le> hi))))"
| "item_match ic SpaceCls c = is_space c"
| "item_match ic DigitCls c = is_digit c"

fun atom_match :: "flags \<Rightarrow> atom \<Rightarrow> cu \<Rightarrow> bool" where
  "atom_match fl (Lit a) c = (if ignoreCase fl then canon a = canon c else a = c)"
| "atom_match fl Dot c =
     (dotAll fl \<or> \<not> (c = 0x0A \<or> c = 0x0D \<or> c = 0x2028 \<or> c = 0x2029))"
| "atom_match fl (Cls items) c = list_ex (\<lambda>i. item_match (ignoreCase fl) i c) items"
| "atom_match fl (NCls items) c = (\<not> list_ex (\<lambda>i. item_match (ignoreCase fl) i c) items)"

text \<open>
  A matcher state is the captures recorded so far (latest first) and the input
  still to read. An iteration of a quantifier that reads nothing fails, as the
  RepeatMatcher of ECMAScript prescribes.
\<close>

type_synonym mstate = "(nat \<times> jsstring) list \<times> jsstring"

function rmatch :: "flags \<Rightarrow> regex \<Rightarrow> mstate \<Rightarrow> mstate list" where
  "rmatch fl Eps (caps, s) = [(caps, s)]"
| "rmatch fl (Atom a) (caps, s) =
     (case s of
        [] \<Rightarrow> []
      | c # t \<Rightarrow> if atom_match fl a c then [(caps, t)] else [])"
| "rmatch fl (Seq r1 r2) (caps, s) = concat (map (rmatch fl r2) (rmatch fl r1 (caps, s)))"
| "rmatch fl (Alt r1 r2) (caps, s) = rmatch fl r1 (caps, s) @ rmatch fl r2 (caps, s)"
| "rmatch fl (Star r) (caps, s) =
     concat (map (\<lambda>(caps', s'). if length s' < length s
                                  then rmatch fl (Star r) (caps', s') else [])
                 (rmatch fl r (caps, s))) @ [(caps, s)]"
| "rmatch fl (LazyStar r) (caps, s) =
     (caps, s) # concat (map (\<lambda>(caps', s'). if length s' < length s
                                              then rmatch fl (LazyStar r) (caps', s') else [])
                             (rmatch fl r (caps, s)))"
| "rmatch fl (Group n r) (caps, s) =
     map (\<lambda>(caps', s'). ((n, take (length s - length s') s) # caps', s'))
         (rmatch fl r (caps, s))"
| "rmatch fl Eoi (caps, s) = (if s = [] then [(caps, s)] else [])"
  by pat_completeness auto
termination
  by (relation "(\<lambda>(fl, r, st). size r) <*mlex*> measure (\<lambda>(fl, r, st). length (snd st))")
     (auto simp: wf_mlex mlex_less mlex_leq)

declare rmatch.simps(5) [simp del]
declare rmatch.simps(6) [simp del]

text \<open>Notation of the literals: a run of literal characters, a sequence, and the
  quantifiers \<open>+\<close>, \<open>+?\<close>, \<open>?\<close> and \<open>{3,}\<close> written out.\<close>

definition lits :: "string \<Rightarrow> regex" where
  "lits s = foldr (\<lambda>c r. Seq (Atom (Lit (of_char c))) r) s Eps"

definition seqs :: "regex list \<Rightarrow> regex" where
  "seqs rs = foldr Seq rs Eps"

definition alts :: "regex list \<Rightarrow> regex" where
  "alts rs = (case rs of [] \<Rightarrow> Eps | _ \<Rightarrow> foldr Alt (butlast rs) (last rs))"

definition Plus :: "regex \<Rightarrow> regex" where
  "Plus r = Seq r (Star r)"

definition Opt :: "regex \<Rightarrow> regex" where
  "Opt r = Alt r Eps"

definition AtLeast3 :: "regex \<Rightarrow> regex" where
  "AtLeast3 r = Seq r (Seq r (Seq r (Star r)))"

abbreviation ws :: regex where "ws \<equiv> Atom (Cls [SpaceCls])"
abbreviation digit :: regex where "digit \<equiv> Atom (Cls [DigitCls])"
abbreviation non :: "string \<Rightarrow> regex" where "non s \<equiv> Atom (NCls (map (\<lambda>c. One (of_char c)) s))"

fun ngroups :: "regex \<Rightarrow> nat" where
  "ngroups Eps = 0"
| "ngroups (Atom a) = 0"
| "ngroups (Seq r1 r2) = max (ngroups r1) (ngroups r2)"
| "ngroups (Alt r1 r2) = max (ngroups r1) (ngroups r2)"
| "ngroups (Star r) = ngroups r"
| "ngroups (LazyStar r) = ngroups r"
| "ngroups (Group n r) = max n (ngroups r)"
| "ngroups Eoi = 0"

text \<open>
  A regular-expression object: the pattern and its flags. Its mutable
  \<open>lastIndex\<close> is threaded through the loops that use it.

  A match array holds the matched text at index 0 and the captures after it; a
  group that took no part in the match is \<open>undefined\<close> (\<open>None\<close>), and so is an index
  past the end.
\<close>

record regexp =
  pattern :: regex
  rflags :: flags

type_synonym match = "jsstring option list"

definition at :: "match \<Rightarrow> nat \<Rightarrow> jsstring option" where
  "at m i = (if i < length m then m ! i else None)"

definition mk_match :: "regex \<Rightarrow> jsstring \<Rightarrow> (nat \<times> jsstring) list \<Rightarrow> match" where
  "mk_match r whole caps = Some whole # map (map_of caps) [1..<Suc (ngroups r)]"

text \<open>
  \<open>find_match fl r i s\<close> is the search of RegExpBuiltinExec from index \<open>i\<close>, where \<open>s\<close>
  is the input from \<open>i\<close> on: the first index at which the pattern matches, with the
  match array and the index where the match ends.
\<close>

fun find_match :: "flags \<Rightarrow> regex \<Rightarrow> nat \<Rightarrow> jsstring \<Rightarrow> (nat \<times> match \<times> nat) option" where
  "find_match fl r i [] =
     (case rmatch fl r ([], []) of
        [] \<Rightarrow> None
      | (caps, s') # _ \<Rightarrow> Some (i, mk_match r [] caps, i))"
| "find_match fl r i (c # t) =
     (case rmatch fl r ([], c # t) of
        [] \<Rightarrow> find_match fl r (Suc i) t
      | (caps, s') # _ \<Rightarrow>
          (let n = length (c # t) - length s'
           in Some (i, mk_match r (take n (c # t)) caps, i + n)))"

text \<open>
  \<open>exec re li s\<close> is \<open>re.exec(s)\<close> with \<open>re.lastIndex = li\<close>: the match array or \<open>null\<close>,
  and the new \<open>lastIndex\<close>. Without the flag \<open>g\<close> the search starts at 0 and
  \<open>lastIndex\<close> is left alone.
\<close>

definition exec :: "regexp \<Rightarrow> nat \<Rightarrow> jsstring \<Rightarrow> match option \<times> nat" where
  "exec re li s =
     (if global (rflags re) then
        (if length s < li then (None, 0)
         else case find_match (rflags re) (pattern re) li (drop li s) of
                None \<Rightarrow> (None, 0)
              | Some (i, m, e) \<Rightarrow> (Some m, e))
      else
        (case find_match (rflags re) (pattern re) 0 s of
           None \<Rightarrow> (None, li)
         | Some (i, m, e) \<Rightarrow> (Some m, li)))"


text \<open>A match never reads past the input, and it ends no earlier than it starts.\<close>

lemma rmatch_length:
  "(caps', s') \<in> set (rmatch fl r (caps, s)) \<Longrightarrow> length s' \<le> length s"
proof (induction fl r "(caps, s)" arbitrary: caps s caps' s' rule: rmatch.induct)
  case (1 fl caps s) then show ?case by simp
next
  case (2 fl a caps s) then show ?case by (auto split: list.splits if_splits)
next
  case (3 fl r1 r2 caps s)
  from "3.prems" obtain c1 s1 where m: "(c1, s1) \<in> set (rmatch fl r1 (caps, s))" and s: "(caps', s') \<in> set (rmatch fl r2 (c1, s1))"
    by auto
  from "3.hyps"(1) [OF m] "3.hyps"(2) [OF m s] show ?case by simp
next
  case (4 fl r1 r2 caps s) 
  from "4.prems" have "(caps', s') \<in> set (rmatch fl r1 (caps, s)) \<or> (caps', s') \<in> set (rmatch fl r2 (caps, s))" by simp
  with "4.hyps" show ?case by blast
next
  case (5 fl r caps s)
  from "5.prems" have "(caps', s') \<in> set (concat (map (\<lambda>(c1, s1). if length s1 < length s
          then rmatch fl (Star r) (c1, s1) else []) (rmatch fl r (caps, s))) @ [(caps, s)])"
    by (subst (asm) rmatch.simps(5)) assumption
  then consider "s' = s" 
    | c1 s1 where "(c1, s1) \<in> set (rmatch fl r (caps, s))" "length s1 < length s" "(caps', s') \<in> set (rmatch fl (Star r) (c1, s1))"
    by (auto split: if_splits)
  then show ?case
  proof cases
    case 1 then show ?thesis by simp
  next
    case 2
    from "5.hyps"(2) [OF 2(1) refl 2(2) 2(3)] 2(2) show ?thesis by simp
  qed
next
  case (6 fl r caps s)
  from "6.prems" have "(caps', s') \<in> set ((caps, s) # concat (map (\<lambda>(c1, s1). if length s1 < length s
          then rmatch fl (LazyStar r) (c1, s1) else []) (rmatch fl r (caps, s))))"
    by (subst (asm) rmatch.simps(6)) assumption
  then consider "s' = s" 
    | c1 s1 where "(c1, s1) \<in> set (rmatch fl r (caps, s))" "length s1 < length s" "(caps', s') \<in> set (rmatch fl (LazyStar r) (c1, s1))"
    by (auto split: if_splits)
  then show ?case
  proof cases
    case 1 then show ?thesis by simp
  next
    case 2
    from "6.hyps"(2) [OF 2(1) refl 2(2) 2(3)] 2(2) show ?thesis by simp
  qed
next
  case (7 fl n r caps s)
  from "7.prems" obtain c1 where "(c1, s') \<in> set (rmatch fl r (caps, s))" by auto
  from "7.hyps" [OF this] show ?case .
next
  case (8 fl caps s)
  from "8.prems" show ?case by (auto split: if_splits)
qed

lemma find_match_bounds:
  "find_match fl r i s = Some (j, m, e) \<Longrightarrow> i \<le> j \<and> j \<le> e \<and> e \<le> i + length s"
proof (induction s arbitrary: i)
  case Nil
  then show ?case by (auto split: list.splits)
next
  case (Cons c t)
  show ?case
  proof (cases "rmatch fl r ([], c # t)")
    case Nil
    with Cons.prems have "find_match fl r (Suc i) t = Some (j, m, e)" by simp
    from Cons.IH [OF this] show ?thesis by simp
  next
    case (Cons st rest)
    obtain caps s' where st: "st = (caps, s')" by (cases st)
    have "(caps, s') \<in> set (rmatch fl r ([], c # t))" using Cons st by simp
    from rmatch_length [OF this] have "length s' \<le> Suc (length t)" by simp
    with Cons st Cons.prems show ?thesis by (auto simp: Let_def)
  qed
qed

text \<open>
  \<open>replace re f s\<close> is \<open>s.replace(re, f)\<close> for a pattern with the flag \<open>g\<close>: every
  match, searched from the end of the one before, is replaced by what \<open>f\<close> returns
  for its match array. After an empty match the search moves on by one code unit.
\<close>

function replace_loop :: "flags \<Rightarrow> regex \<Rightarrow> (match \<Rightarrow> jsstring) \<Rightarrow> jsstring \<Rightarrow> jsstring" where
  "replace_loop fl r f s =
     (case find_match fl r 0 s of
        None \<Rightarrow> s
      | Some (i, m, e) \<Rightarrow>
          take i s @ f m @
          (if e = i then (case drop i s of [] \<Rightarrow> [] | c # t \<Rightarrow> c # replace_loop fl r f t)
           else replace_loop fl r f (drop e s)))"
  by pat_completeness auto
termination
proof (relation "measure (\<lambda>(fl, r, f, s). length s)", goal_cases)
  case 1
  show ?case by simp
next
  case (2 fl r f s x2 i y m e c t)
  then have "length (drop i s) = Suc (length t)" by simp
  then show ?case by simp
next
  case (3 fl r f s x2 i y m e)
  then have "find_match fl r 0 s = Some (i, m, e)" by simp
  from find_match_bounds [OF this] 3 show ?case by auto
qed

declare replace_loop.simps [simp del]

definition replace :: "jsstring \<Rightarrow> regexp \<Rightarrow> (match \<Rightarrow> jsstring) \<Rightarrow> jsstring" where
  "replace s re f = replace_loop (rflags re) (pattern re) f s"


text \<open>
  \<open>s.match(re)\<close>: without the flag \<open>g\<close> the match array of the first match, with it
  the texts of all matches; \<open>null\<close> when there is none.
\<close>

function match_texts :: "flags \<Rightarrow> regex \<Rightarrow> jsstring \<Rightarrow> jsstring option list" where
  "match_texts fl r s =
     (case find_match fl r 0 s of
        None \<Rightarrow> []
      | Some (i, m, e) \<Rightarrow>
          at m 0 #
          (if e = i then (case drop i s of [] \<Rightarrow> [] | c # t \<Rightarrow> match_texts fl r t)
           else match_texts fl r (drop e s)))"
  by pat_completeness auto
termination
proof (relation "measure (\<lambda>(fl, r, s). length s)", goal_cases)
  case 1
  show ?case by simp
next
  case (2 fl r s x2 i y m e c t)
  then have "length (drop i s) = Suc (length t)" by simp
  then show ?case by simp
next
  case (3 fl r s x2 i y m e)
  then have "find_match fl r 0 s = Some (i, m, e)" by simp
  from find_match_bounds [OF this] 3 show ?case by auto
qed

declare match_texts.simps [simp del]

definition string_match :: "jsstring \<Rightarrow> regexp \<Rightarrow> match option" where
  "string_match s re =
     (if global (rflags re) then
        (case match_texts (rflags re) (pattern re) s of [] \<Rightarrow> None | ms \<Rightarrow> Some ms)
      else map_option (\<lambda>(i, m, e). m) (find_match (rflags re) (pattern re) 0 s))"

section \<open>Strings and numbers of the standard library\<close>

definition startsWith :: "jsstring \<Rightarrow> jsstring \<Rightarrow> bool" where
  "startsWith s p = (take (length p) s = p)"


text \<open>\<open>s.split('/').pop()\<close>: what follows the last slash.\<close>

definition split_pop :: "jsstring \<Rightarrow> jsstring" where
  "split_pop s = rev (takeWhile (\<lambda>c. c \<noteq> 0x2F) (rev s))"

text \<open>A non-negative integer in a template literal: its decimal digits.\<close>

function to_string :: "nat \<Rightarrow> jsstring" where
  "to_string n = (if n < 10 then [0x30 + of_nat n]
                  else to_string (n div 10) @ [0x30 + of_nat (n mod 10)])"
  by pat_completeness auto
termination
  by (relation "measure id") auto

declare to_string.simps [simp del]

text \<open>
  \<open>parseInt(t, radix)\<close> on a non-empty run of digits of that radix: the integer the
  digits denote, rounded to the nearest double (ties to even) as every Number is.
  \<open>String.fromCharCode\<close> takes the Number modulo \<open>2^16\<close>. A value that overflows to
  \<open>Infinity\<close> and the value this rounding gives are both multiples of \<open>2^16\<close>, so the
  code unit is 0 either way. (Past 20 significant decimal digits ECMAScript lets an
  implementation zero the digits that follow; the model keeps them.)
\<close>

definition digit_value :: "cu \<Rightarrow> nat" where
  "digit_value c =
     (if 0x30 \<le> c \<and> c \<le> 0x39 then unat c - 0x30
      else if 0x61 \<le> c \<and> c \<le> 0x7A then unat c - 0x61 + 10
      else unat c - 0x41 + 10)"

definition math_int :: "nat \<Rightarrow> jsstring \<Rightarrow> nat" where
  "math_int radix t = foldl (\<lambda>n c. n * radix + digit_value c) 0 t"

function bit_length :: "nat \<Rightarrow> nat" where
  "bit_length n = (if n = 0 then 0 else Suc (bit_length (n div 2)))"
  by pat_completeness auto
termination
  by (relation "measure id") auto

declare bit_length.simps [simp del]

definition to_number :: "nat \<Rightarrow> nat" where
  "to_number n =
     (if n < 2 ^ 53 then n
      else let e = bit_length n - 53; q = n div 2 ^ e; r = n mod 2 ^ e
           in (if 2 ^ e < 2 * r \<or> (2 * r = 2 ^ e \<and> odd q) then q + 1 else q) * 2 ^ e)"

definition parseInt :: "jsstring \<Rightarrow> nat \<Rightarrow> nat" where
  "parseInt t radix = to_number (math_int radix t)"

definition fromCharCode :: "nat \<Rightarrow> jsstring" where
  "fromCharCode n = [of_nat n]"

text \<open>
  \<open>encodeURIComponent\<close>: the unreserved characters stay, every other code point is
  written as the percent-escapes of its UTF-8 bytes, and a surrogate without its
  partner raises a URIError.
\<close>

datatype js_error = Error jsstring | TypeError jsstring | URIError jsstring

fun message :: "js_error \<Rightarrow> jsstring" where
  "message (Error m) = m"
| "message (TypeError m) = m"
| "message (URIError m) = m"

definition uri_unreserved :: "cu \<Rightarrow> bool" where
  "uri_unreserved c =
     ((0x41 \<le> c \<and> c \<le> 0x5A) \<or> (0x61 \<le> c \<and> c \<le> 0x7A) \<or> (0x30 \<le> c \<and> c \<le> 0x39)
      \<or> c \<in> set (js ''-_.!~*'()''))"

definition hex_digit :: "nat \<Rightarrow> cu" where
  "hex_digit n = (if n < 10 then 0x30 + of_nat n else 0x41 + of_nat (n - 10))"

definition percent :: "nat \<Rightarrow> jsstring" where
  "percent b = [0x25, hex_digit (b div 16), hex_digit (b mod 16)]"

definition utf8 :: "nat \<Rightarrow> nat list" where
  "utf8 cp =
     (if cp < 0x80 then [cp]
      else if cp < 0x800 then [0xC0 + cp div 0x40, 0x80 + cp mod 0x40]
      else if cp < 0x10000 then
        [0xE0 + cp div 0x1000, 0x80 + cp div 0x40 mod 0x40, 0x80 + cp mod 0x40]
      else [0xF0 + cp div 0x40000, 0x80 + cp div 0x1000 mod 0x40,
            0x80 + cp div 0x40 mod 0x40, 0x80 + cp mod 0x40])"

fun encodeURIComponent :: "jsstring \<Rightarrow> js_error + jsstring" where
  "encodeURIComponent [] = Inr []"
| "encodeURIComponent (c # t) =
     (if uri_unreserved c then map_sum id ((#) c) (encodeURIComponent t)
      else if 0xDC00 \<le> c \<and> c \<le> 0xDFFF then Inl (URIError (js ''URI malformed''))
      else if 0xD800 \<le> c \<and> c \<le> 0xDBFF then
        (case t of
           [] \<Rightarrow> Inl (URIError (js ''URI malformed''))
         | d # u \<Rightarrow>
             if 0xDC00 \<le> d \<and> d \<le> 0xDFFF then
               map_sum id
                 ((@) (concat (map percent
                    (utf8 ((unat c - 0xD800) * 0x400 + (unat d - 0xDC00) + 0x10000)))))
                 (encodeURIComponent u)
             else Inl (URIError (js ''URI malformed'')))
      else map_sum id ((@) (concat (map percent (utf8 (unat c))))) (encodeURIComponent t))"

section \<open>Effects: the console, exceptions, the transport\<close>

text \<open>
  An operation writes to the console and then returns a value, throws, or never
  returns (a loop that runs forever). \<open>try_catch\<close> is \<open>try { ... } catch (error) { ... }\<close>.
\<close>

datatype level = Log | Warn | Err

datatype console_arg = Txt jsstring | Obj js_error

type_synonym console = "(level \<times> console_arg list) list"

datatype 'a outcome = Returns 'a | Throws js_error | Diverges

type_synonym 'a io = "console \<times> 'a outcome"

definition return :: "'a \<Rightarrow> 'a io" where
  "return x = ([], Returns x)"

definition throw :: "js_error \<Rightarrow> 'a io" where
  "throw e = ([], Throws e)"

definition console_log :: "console_arg list \<Rightarrow> unit io" where
  "console_log args = ([(Log, args)], Returns ())"

definition console_warn :: "console_arg list \<Rightarrow> unit io" where
  "console_warn args = ([(Warn, args)], Returns ())"

definition console_error :: "console_arg list \<Rightarrow> unit io" where
  "console_error args = ([(Err, args)], Returns ())"

definition bind_io :: "'a io \<Rightarrow> ('a \<Rightarrow> 'b io) \<Rightarrow> 'b io" where
  "bind_io m f =
     (case m of
        (l, Returns x) \<Rightarrow> (case f x of (l', r) \<Rightarrow> (l @ l', r))
      | (l, Throws e) \<Rightarrow> (l, Throws e)
      | (l, Diverges) \<Rightarrow> (l, Diverges))"

definition try_catch :: "'a io \<Rightarrow> (js_error \<Rightarrow> 'a io) \<Rightarrow> 'a io" where
  "try_catch m h =
     (case m of
        (l, Throws e) \<Rightarrow> (case h e of (l', r) \<Rightarrow> (l @ l', r))
      | (l, r) \<Rightarrow> (l, r))"

text \<open>
  The transport is the \<open>fetch\<close> the host supplies: for a URL and the options of the
  request, a response or a rejection. \<open>content\<close> is what \<open>response.text()\<close> resolves to.
\<close>

record response =
  ok :: bool
  status :: nat
  statusText :: jsstring
  url :: jsstring
  content :: jsstring

type_synonym fetch = "jsstring \<Rightarrow> (string \<times> jsstring) list \<Rightarrow> js_error + response"

definition await_fetch :: "fetch \<Rightarrow> jsstring \<Rightarrow> (string \<times> jsstring) list \<Rightarrow> response io" where
  "await_fetch fetch u opts = (case fetch u opts of Inl e \<Rightarrow> throw e | Inr r \<Rightarrow> return r)"

text \<open>
  Reading a property or calling a method of \<open>undefined\<close> raises a TypeError;
  \<open>undefined\<close> in a template literal or as the argument of \<open>exec\<close> is the text
  \<open>undefined\<close>; the empty string and \<open>undefined\<close> are falsy.
\<close>

definition defined :: "jsstring option \<Rightarrow> jsstring io" where
  "defined v =
     (case v of
        None \<Rightarrow> throw (TypeError (js ''Cannot read properties of undefined''))
      | Some t \<Rightarrow> return t)"

definition ToString :: "jsstring option \<Rightarrow> jsstring" where
  "ToString v = (case v of None \<Rightarrow> js ''undefined'' | Some t \<Rightarrow> t)"

definition truthy :: "jsstring option \<Rightarrow> bool" where
  "truthy v = (case v of None \<Rightarrow> False | Some t \<Rightarrow> t \<noteq> [])"

text \<open>\<open>a ?? b\<close> on the results of \<open>extractFirst\<close>.\<close>

definition nullish :: "'a option \<Rightarrow> 'a option \<Rightarrow> 'a option" where
  "nullish a b = (case a of None \<Rightarrow> b | Some x \<Rightarrow> Some x)"

definition or_else :: "jsstring \<Rightarrow> jsstring \<Rightarrow> jsstring" where
  "or_else a b = (if a \<noteq> [] then a else b)"

section \<open>The helpers of the modules\<close>

text \<open>
  \<open>extractAll\<close> (ReadFullNovelV2.js 12-19, and the same text in the two MangaPill
  modules): the loop calls \<open>regex.exec(html)\<close> until it answers \<open>null\<close> and pushes
  every match. The pattern is a fresh literal, so \<open>lastIndex\<close> starts at 0. The loop
  has no exit of its own: the result is \<open>None\<close> when it runs forever.
\<close>

partial_function (option) extractAll_loop ::
    "regexp \<Rightarrow> jsstring \<Rightarrow> nat \<Rightarrow> match list \<Rightarrow> match list option" where
  "extractAll_loop regex html lastIndex matches =
     (case exec regex lastIndex html of
        (None, lastIndex') \<Rightarrow> Some matches
      | (Some m, lastIndex') \<Rightarrow> extractAll_loop regex html lastIndex' (matches @ [m]))"

declare extractAll_loop.simps [code]

definition extractAll :: "jsstring \<Rightarrow> regexp \<Rightarrow> match list option" where
  "extractAll html regex = extractAll_loop regex html 0 []"

text \<open>The module for readwn.com (part 000, 13-21) returns at once on an empty text.\<close>

definition rwn_extractAll :: "jsstring \<Rightarrow> regexp \<Rightarrow> match list option" where
  "rwn_extractAll html regex = (if html = [] then Some [] else extractAll_loop regex html 0 [])"

definition await_loop :: "'a option \<Rightarrow> 'a io" where
  "await_loop r = (case r of None \<Rightarrow> ([], Diverges) | Some x \<Rightarrow> return x)"

text \<open>
  \<open>extractFirst\<close>: \<open>html.match(regex)\<close> and, of a match, \<open>slice(1)\<close>: the captures.
\<close>

definition extractFirst :: "jsstring \<Rightarrow> regexp \<Rightarrow> match option" where
  "extractFirst html regex = map_option tl (string_match html regex)"


definition re :: "regex list \<Rightarrow> string \<Rightarrow> regexp" where
  "re rs fs =
     \<lparr>pattern = seqs rs,
      rflags = \<lparr>global = (CHR ''g'' \<in> set fs), ignoreCase = (CHR ''i'' \<in> set fs),
                dotAll = (CHR ''s'' \<in> set fs)\<rparr>\<rparr>"

text \<open>
  \<open>decodeEntities\<close> (ReadFullNovelV2.js 26-39; the newer MangaPill module, part 001
  27-39, has the same text). The callbacks get the match array: \<open>translate[entity]\<close>
  of a name that is not in the table would be \<open>undefined\<close>, and \<open>parseInt(undefined)\<close>
  is NaN, whose code unit is 0.
\<close>

definition translate_lookup :: "(jsstring \<times> jsstring) list \<Rightarrow> match \<Rightarrow> jsstring" where
  "translate_lookup translate m = ToString (map_of translate (ToString (at m 1)))"

definition char_of_digits :: "nat \<Rightarrow> match \<Rightarrow> jsstring" where
  "char_of_digits radix m =
     (case at m 1 of None \<Rightarrow> fromCharCode 0 | Some t \<Rightarrow> fromCharCode (parseInt t radix))"

definition numeric_re :: regexp where
  "numeric_re = re [lits ''&#'', Group 1 (Plus digit), lits '';''] ''gi''"

definition hex_re :: regexp where
  "hex_re = re [lits ''&#x'',
                Group 1 (Plus (Atom (Cls [Range 0x30 0x39, Range 0x41 0x46, Range 0x61 0x66]))),
                lits '';''] ''gi''"

definition translate_re :: regexp where
  "translate_re =
     re [lits ''&'', Group 1 (alts [lits ''nbsp'', lits ''amp'', lits ''quot'', lits ''lt'', lits ''gt'']),
         lits '';''] ''g''"

definition translate :: "(jsstring \<times> jsstring) list" where
  "translate = [(js ''nbsp'', js '' ''), (js ''amp'', js ''&''), (js ''quot'', [0x22]),
                (js ''lt'', js ''<''), (js ''gt'', js ''>'')]"

definition decodeEntities :: "jsstring \<Rightarrow> jsstring" where
  "decodeEntities encodedString =
     (if encodedString = [] then []
      else let decoded = replace encodedString translate_re (translate_lookup translate);
               decoded = replace decoded numeric_re (char_of_digits 10);
               decoded = replace decoded hex_re (char_of_digits 16)
           in decoded)"

text \<open>The module for readwn.com (part 000, 29-42) adds \<open>apos\<close>.\<close>

definition rwn_translate_re :: regexp where
  "rwn_translate_re =
     re [lits ''&'',
         Group 1 (alts [lits ''nbsp'', lits ''amp'', lits ''quot'', lits ''lt'', lits ''gt'',
                        lits ''apos'']),
         lits '';''] ''g''"

definition rwn_translate :: "(jsstring \<times> jsstring) list" where
  "rwn_translate = [(js ''nbsp'', js '' ''), (js ''amp'', js ''&''), (js ''quot'', [0x22]),
                    (js ''lt'', js ''<''), (js ''gt'', js ''>''), (js ''apos'', [0x27])]"

definition rwn_decodeEntities :: "jsstring \<Rightarrow> jsstring" where
  "rwn_decodeEntities encodedString =
     (if encodedString = [] then []
      else let decoded = replace encodedString rwn_translate_re (translate_lookup rwn_translate);
               decoded = replace decoded numeric_re (char_of_digits 10);
               decoded = replace decoded hex_re (char_of_digits 16)
           in decoded)"

text \<open>
  The older MangaPill module (part 002, 26-41) has no guard for the empty string
  and no pass for the hexadecimal references.
\<close>

definition mp0_decodeEntities :: "jsstring \<Rightarrow> jsstring" where
  "mp0_decodeEntities encodedString =
     replace (replace encodedString translate_re (translate_lookup translate))
             numeric_re (char_of_digits 10)"

text \<open>\<open>cleanHtmlText\<close> of ReadFullNovelV2.js (41-44).\<close>

definition br_re :: regexp where
  "br_re = re [lits ''<br'', Star ws, Opt (lits ''/''), lits ''>''] ''gi''"

definition tag_re :: regexp where
  "tag_re = re [lits ''<'', Star (non ''>''), lits ''>''] ''g''"

definition cleanHtmlText :: "jsstring \<Rightarrow> jsstring" where
  "cleanHtmlText html =
     (if html = [] then []
      else decodeEntities
             (trim (replace (replace html br_re (\<lambda>m. [0x0A])) tag_re (\<lambda>m. []))))"

text \<open>\<open>cleanHtmlText\<close> of the module for readwn.com (part 000, 44-57).\<close>

definition script_re :: regexp where
  "script_re = re [lits ''<script'', Star (non ''>''), lits ''>'', LazyStar (Atom Dot),
                   lits ''</script>''] ''gis''"

definition style_re :: regexp where
  "style_re = re [lits ''<style'', Star (non ''>''), lits ''>'', LazyStar (Atom Dot),
                  lits ''</style>''] ''gis''"

definition p_re :: regexp where
  "p_re = re [lits ''<'', Opt (lits ''/''), lits ''p'', Star (non ''>''), lits ''>''] ''gi''"

definition newlines_re :: regexp where
  "newlines_re = re [AtLeast3 (Atom (Lit 0x0A))] ''g''"

definition rwn_cleanHtmlText :: "jsstring \<Rightarrow> jsstring" where
  "rwn_cleanHtmlText html =
     (if html = [] then []
      else let cleaned = replace html script_re (\<lambda>m. []);
               cleaned = replace cleaned style_re (\<lambda>m. []);
               cleaned = replace cleaned p_re (\<lambda>m. [0x0A, 0x0A]);
               cleaned = replace cleaned br_re (\<lambda>m. [0x0A]);
               cleaned = replace cleaned tag_re (\<lambda>m. [])
           in trim (replace (rwn_decodeEntities cleaned) newlines_re (\<lambda>m. [0x0A, 0x0A])))"

section \<open>The records the operations return\<close>

record search_result =
  sr_id :: jsstring
  sr_title :: jsstring
  sr_author :: jsstring
  sr_coverUrl :: jsstring
  sr_description :: jsstring

record chapter_ref =
  ch_id :: jsstring
  ch_title :: jsstring

record book_details =
  bd_id :: jsstring
  bd_title :: jsstring
  bd_author :: jsstring
  bd_coverUrl :: jsstring
  bd_description :: jsstring
  bd_genres :: "jsstring list"
  bd_status :: jsstring
  bd_chapters :: "chapter_ref list"

section \<open>The module for readnovelfull.com (ReadFullNovelV2.js)\<close>

definition BASE_URL :: jsstring where
  "BASE_URL = js ''https://readnovelfull.com''"

definition no_cover :: jsstring where
  "no_cover = js ''https://via.placeholder.com/150x200?text=No+Cover''"

text \<open>\<open>decodeEntities(m[i].trim())\<close>, the idiom of every text field.\<close>

definition trimmed :: "match \<Rightarrow> nat \<Rightarrow> jsstring io" where
  "trimmed m i = bind_io (defined (at m i)) (\<lambda>t. return (decodeEntities (trim t)))"

text \<open>\<open>cleanHtmlText(m[i])\<close>: \<open>undefined\<close> is falsy and gives the empty string.\<close>

definition cleaned :: "match \<Rightarrow> nat \<Rightarrow> jsstring" where
  "cleaned m i = (case at m i of None \<Rightarrow> [] | Some h \<Rightarrow> cleanHtmlText h)"

text \<open>\<open>u.startsWith('http') ? u : BASE_URL + u\<close>\<close>

definition absolute :: "jsstring \<Rightarrow> match \<Rightarrow> nat \<Rightarrow> jsstring io" where
  "absolute base m i =
     bind_io (defined (at m i))
       (\<lambda>u. return (if startsWith u (js ''http'') then u else base @ u))"

subsection \<open>search (65-114)\<close>

definition comprehensiveItemRegex :: regexp where
  "comprehensiveItemRegex =
     re [lits ''<div class=\"col-xs-3'', LazyStar (Atom Dot), lits ''<a href=\"/'',
         Group 1 (Plus (non ''\"'')), lits ''\"'', Star (non ''>''), lits ''>'', Star ws,
         lits ''<img'', Star (non ''>''), lits ''src=\"'', Group 2 (Plus (non ''\"'')), lits ''\"'',
         Star (non ''>''), lits ''>'', LazyStar (Atom Dot),
         lits ''<h3 class=\"novel-title\"'', Star (non ''>''), lits ''><a'', Star (non ''>''),
         lits ''>'', Group 3 (Plus (non ''<'')), lits ''</a></h3>'', LazyStar (Atom Dot),
         lits ''<span class=\"author\"'', Star (non ''>''), lits ''>'', Group 4 (Plus (non ''<'')),
         lits ''</span>'', LazyStar (Atom Dot), lits ''<div class=\"novel-desc\">'',
         Group 5 (LazyStar (Atom Dot)), lits ''</div>''] ''gis''"

text \<open>The body of \<open>for (const match of matches)\<close>, lines 89-105.\<close>

fun search_results :: "match list \<Rightarrow> search_result list \<Rightarrow> search_result list io" where
  "search_results [] results = return results"
| "search_results (m # matches) results =
     bind_io (absolute BASE_URL m 2) (\<lambda>coverUrl.
     bind_io (trimmed m 3) (\<lambda>title.
     bind_io (trimmed m 4) (\<lambda>author.
     let description = cleaned m 5 in
     search_results matches
       (if truthy (at m 1) \<and> title \<noteq> [] then
          results @
          [\<lparr>sr_id = ToString (at m 1), sr_title = title,
            sr_author = or_else author (js ''Unknown Author''),
            sr_coverUrl = or_else coverUrl no_cover,
            sr_description = or_else description (js ''No description available.'')\<rparr>]
        else results))))"

definition search :: "fetch \<Rightarrow> jsstring \<Rightarrow> search_result list io" where
  "search fetch query =
     (case encodeURIComponent query of
        Inl e \<Rightarrow> throw e
      | Inr q \<Rightarrow>
          let searchUrl = BASE_URL @ js ''/novel-list/search?keyword='' @ q in
          bind_io (console_log [Txt (js ''ReadNovelFull Searching: '' @ searchUrl)]) (\<lambda>_.
          try_catch
            (bind_io (await_fetch fetch searchUrl []) (\<lambda>response.
               if \<not> ok response then
                 bind_io (console_error
                            [Txt (js ''Search failed: '' @ to_string (status response) @ js '' ''
                                  @ statusText response)])
                   (\<lambda>_. return [])
               else
                 let html = content response in
                 bind_io (await_loop (extractAll html comprehensiveItemRegex)) (\<lambda>matches.
                 bind_io (console_log
                            [Txt (js ''Found '' @ to_string (length matches)
                                  @ js '' potential search results.'')]) (\<lambda>_.
                 bind_io (search_results matches []) (\<lambda>results.
                 bind_io (console_log
                            [Txt (js ''Parsed '' @ to_string (length results)
                                  @ js '' valid results.'')]) (\<lambda>_.
                 return results))))))
            (\<lambda>error.
               bind_io (console_error [Txt (js ''ReadNovelFull Search Error:''), Obj error])
                 (\<lambda>_. return []))))"

subsection \<open>getBookDetails (121-243)\<close>

text \<open>
  Lines 126-135. \<open>response\<close> is declared \<open>const\<close>: when the first response is not
  ok, the second \<open>fetch\<close> is awaited and the assignment of its response then raises
  the TypeError of an assignment to a constant, so that the test of line 132 is never
  reached.
\<close>

definition details_response :: "fetch \<Rightarrow> jsstring \<Rightarrow> jsstring \<Rightarrow> response io" where
  "details_response fetch bookUrl ident =
     bind_io (await_fetch fetch bookUrl []) (\<lambda>response.
       if \<not> ok response then
         let fallbackUrl = BASE_URL @ js ''/'' @ ident in
         bind_io (console_log
                    [Txt (js ''Retrying details fetch without .html: '' @ fallbackUrl)]) (\<lambda>_.
         bind_io (await_fetch fetch fallbackUrl []) (\<lambda>response'.
         throw (TypeError (js ''Assignment to constant variable.''))))
       else return response)"

definition title_re :: regexp where
  "title_re = re [lits ''<h3 class=\"title\"'', Star (non ''>''), lits ''>'',
                  Group 1 (Plus (non ''<'')), lits ''</h3>''] ''i''"

definition author_re :: regexp where
  "author_re =
     re [lits ''>'', Star ws, lits ''Author(s):'', Star ws, lits ''</label>'', Star ws,
         lits ''<ul'', Star (non ''>''), lits ''>'', Star ws, lits ''<li'', Star (non ''>''),
         lits ''><a'', Star (non ''>''), lits ''>'', Group 1 (Plus (non ''<'')),
         lits ''</a></li>'', Star ws, lits ''</ul>''] ''i''"

definition cover_re :: regexp where
  "cover_re = re [lits ''<div class=\"book\">'', Star ws, lits ''<img'', Star (non ''>''),
                  lits ''src=\"'', Group 1 (Plus (non ''\"'')), lits ''\"''] ''i''"

definition description_re :: regexp where
  "description_re = re [lits ''<div class=\"desc-text\"'', Star (non ''>''), lits ''>'',
                        Group 1 (LazyStar (Atom Dot)), lits ''</div>''] ''is''"

definition genreList_re :: regexp where
  "genreList_re = re [lits ''>'', Star ws, lits ''Genre:'', Star ws, lits ''</label>'', Star ws,
                      lits ''<ul'', Star (non ''>''), lits ''>'', Group 1 (LazyStar (Atom Dot)),
                      lits ''</ul>''] ''is''"

definition genreRegex :: regexp where
  "genreRegex = re [lits ''<a'', Star (non ''>''), lits ''>'', Group 1 (Plus (non ''<'')),
                    lits ''</a>''] ''gi''"

definition status_re :: regexp where
  "status_re = re [lits ''>'', Star ws, lits ''Status:'', Star ws, lits ''</label>'', Star ws,
                   lits ''<a'', Star (non ''>''), lits ''>'', Group 1 (Plus (non ''<'')),
                   lits ''</a>''] ''i''"

definition novelId_re :: regexp where
  "novelId_re = re [lits ''data-novel-id=\"'', Group 1 (Plus digit), lits ''\"''] ''i''"

text \<open>The alternative of line 174 begins with an unescaped \<open>$\<close>, the end of the input.\<close>

definition novelId_alt_re :: regexp where
  "novelId_alt_re =
     re [Eoi, Group 1 (lits [CHR 0x27, CHR ''#'', CHR ''r'', CHR ''a'', CHR ''t'', CHR ''e'', CHR 0x27]),
         Atom Dot, lits ''raty({'', LazyStar (Atom Dot), lits ''readOnly: true, score: '',
         Plus digit, lits '', novelId: '', Group 2 (Plus digit), lits ''}''] ''i''"

definition chapterRegex :: regexp where
  "chapterRegex =
     re [lits ''<li'', Star (non ''>''), lits ''>'', Star ws, lits ''<a href=\"/'',
         Group 1 (Plus (non ''\"'')), lits ''\"'', Star (non ''>''), lits ''title=\"'',
         Plus (non ''\"''), lits ''\">'', Star ws, Group 2 (Plus (non ''<'')), Star ws,
         lits ''</a>'', Star ws, lits ''</li>''] ''gi''"

definition chapterList_re :: regexp where
  "chapterList_re = re [lits ''<div id=\"list-chapter\"'', Star (non ''>''), lits ''>'',
                        Group 1 (LazyStar (Atom Dot)), lits ''</div>''] ''is''"

text \<open>\<open>m ? decodeEntities(m[0].trim()) : d\<close>, lines 141, 145 and 164.\<close>

definition text_field :: "match option \<Rightarrow> jsstring \<Rightarrow> jsstring io" where
  "text_field m d = (case m of None \<Rightarrow> return d | Some g \<Rightarrow> trimmed g 0)"

definition coverUrl_field :: "jsstring \<Rightarrow> jsstring io" where
  "coverUrl_field html =
     (case extractFirst html cover_re of
        None \<Rightarrow> return no_cover
      | Some coverMatch \<Rightarrow> absolute BASE_URL coverMatch 0)"

definition description_field :: "jsstring \<Rightarrow> jsstring" where
  "description_field html =
     (case extractFirst html description_re of
        None \<Rightarrow> js ''No description available.''
      | Some descriptionMatch \<Rightarrow> cleaned descriptionMatch 0)"

fun trimmed_all :: "match list \<Rightarrow> jsstring list io" where
  "trimmed_all [] = return []"
| "trimmed_all (m # ms) =
     bind_io (trimmed m 1) (\<lambda>g. bind_io (trimmed_all ms) (\<lambda>gs. return (g # gs)))"

definition genres_field :: "jsstring \<Rightarrow> jsstring list io" where
  "genres_field html =
     (case extractFirst html genreList_re of
        None \<Rightarrow> return []
      | Some genreListMatch \<Rightarrow>
          bind_io (await_loop (extractAll (ToString (at genreListMatch 0)) genreRegex))
            trimmed_all)"

text \<open>The body of \<open>for (const match of chapterMatches)\<close>, lines 196-205 and 216-222.\<close>

fun chapter_refs :: "match list \<Rightarrow> chapter_ref list \<Rightarrow> chapter_ref list io" where
  "chapter_refs [] chapters = return chapters"
| "chapter_refs (m # ms) chapters =
     bind_io (trimmed m 2) (\<lambda>chapterTitle.
     chapter_refs ms
       (if truthy (at m 1) \<and> chapterTitle \<noteq> [] then
          chapters @ [\<lparr>ch_id = ToString (at m 1), ch_title = chapterTitle\<rparr>]
        else chapters))"

text \<open>
  Lines 191-207 and 214-224, the same text but for the message: the chapters that
  \<open>chapterRegex\<close> finds in a listing.
\<close>

definition parse_chapters :: "jsstring \<Rightarrow> jsstring \<Rightarrow> chapter_ref list io" where
  "parse_chapters listing origin =
     bind_io (await_loop (extractAll listing chapterRegex)) (\<lambda>chapterMatches.
     bind_io (chapter_refs chapterMatches []) (\<lambda>chapters.
     bind_io (console_log
                [Txt (js ''Parsed '' @ to_string (length chapters) @ js '' chapters from '' @ origin)])
       (\<lambda>_. return chapters)))"

text \<open>Lines 168-226: the chapters, from the AJAX listing or from the page itself.\<close>

definition chapters_field ::
    "fetch \<Rightarrow> jsstring \<Rightarrow> jsstring \<Rightarrow> jsstring \<Rightarrow> chapter_ref list io" where
  "chapters_field fetch bookUrl ident html =
     (case nullish (extractFirst html novelId_re) (extractFirst html novelId_alt_re) of
        Some novelIdMatch \<Rightarrow>
          let numericalNovelId = ToString (at novelIdMatch 0);
              chaptersUrl = BASE_URL @ js ''/ajax/chapter-archive?novelId='' @ numericalNovelId
          in
          bind_io (console_log
                     [Txt (js ''Fetching chapter list from AJAX URL: '' @ chaptersUrl)]) (\<lambda>_.
          bind_io (await_fetch fetch chaptersUrl
                     [(''Referer'', bookUrl), (''X-Requested-With'', js ''XMLHttpRequest'')])
            (\<lambda>chaptersResponse.
               if \<not> ok chaptersResponse then
                 bind_io (console_error
                            [Txt (js ''Failed to fetch AJAX chapters: ''
                                  @ to_string (status chaptersResponse))])
                   (\<lambda>_. return [])
               else parse_chapters (content chaptersResponse) (js ''AJAX response.'')))
      | None \<Rightarrow>
          bind_io (console_warn
                     [Txt (js ''Could not find numerical novel ID to fetch chapter list via AJAX for:''),
                      Txt ident]) (\<lambda>_.
          case extractFirst html chapterList_re of
            None \<Rightarrow> return []
          | Some chapterListHtmlMatch \<Rightarrow>
              parse_chapters (ToString (at chapterListHtmlMatch 0))
                (js ''direct HTML (fallback).'')))"

definition getBookDetails :: "fetch \<Rightarrow> jsstring \<Rightarrow> book_details io" where
  "getBookDetails fetch ident =
     (let bookUrl = BASE_URL @ js ''/'' @ ident @ js ''.html'' in
      bind_io (console_log [Txt (js ''Fetching details for: '' @ bookUrl)]) (\<lambda>_.
      try_catch
        (bind_io (details_response fetch bookUrl ident) (\<lambda>response.
         let html = content response in
         bind_io (text_field (extractFirst html title_re) (js ''Unknown Title'')) (\<lambda>title.
         bind_io (text_field (extractFirst html author_re) (js ''Unknown Author'')) (\<lambda>author.
         bind_io (coverUrl_field html) (\<lambda>coverUrl.
         let description = description_field html in
         bind_io (genres_field html) (\<lambda>genres.
         bind_io (text_field (extractFirst html status_re) (js ''Unknown'')) (\<lambda>status.
         bind_io (chapters_field fetch bookUrl ident html) (\<lambda>chapters.
         return \<lparr>bd_id = ident, bd_title = title, bd_author = author, bd_coverUrl = coverUrl,
                 bd_description = description, bd_genres = genres, bd_status = status,
                 bd_chapters = chapters\<rparr>))))))))
        (\<lambda>error.
           bind_io (console_error
                      [Txt (js ''Get Book Details Error for ID '' @ ident @ js '':''), Obj error])
             (\<lambda>_. throw (Error (js ''Failed to get details for '' @ ident @ js '': ''
                                  @ message error))))))"

subsection \<open>getContent (250-291)\<close>

definition content_re :: regexp where
  "content_re = re [lits ''<div id=\"chr-content\"'', Star (non ''>''), lits ''>'',
                    Group 1 (LazyStar (Atom Dot)), lits ''</div>''] ''is''"

text \<open>
  \<open>m && m[0]\<close> when it is truthy: the first capture of a match, unless there is no
  match or the capture is empty (the test \<open>!m || !m[0]\<close> of lines 270 fails).
\<close>

definition truthy_capture :: "match option \<Rightarrow> jsstring option" where
  "truthy_capture m =
     (case m of
        None \<Rightarrow> None
      | Some g \<Rightarrow> (case at g 0 of None \<Rightarrow> None | Some h \<Rightarrow> if h = [] then None else Some h))"

definition content_response :: "fetch \<Rightarrow> jsstring \<Rightarrow> jsstring \<Rightarrow> response io" where
  "content_response fetch chapterUrl ident =
     bind_io (await_fetch fetch chapterUrl []) (\<lambda>response.
       if \<not> ok response then
         let fallbackUrl = BASE_URL @ js ''/'' @ ident in
         bind_io (console_log
                    [Txt (js ''Retrying content fetch without .html: '' @ fallbackUrl)]) (\<lambda>_.
         bind_io (await_fetch fetch fallbackUrl []) (\<lambda>response.
         if \<not> ok response then
           throw (Error (js ''Failed to fetch chapter content (tried with and without .html): ''
                         @ to_string (status response)))
         else return response))
       else return response)"

definition getContent :: "fetch \<Rightarrow> jsstring \<Rightarrow> jsstring io" where
  "getContent fetch ident =
     (let chapterUrl = BASE_URL @ js ''/'' @ ident @ js ''.html'' in
      bind_io (console_log [Txt (js ''Fetching content for: '' @ chapterUrl)]) (\<lambda>_.
      try_catch
        (bind_io (content_response fetch chapterUrl ident) (\<lambda>response.
         let html = content response;
             contentMatch = extractFirst html content_re
         in
         case truthy_capture contentMatch of
           None \<Rightarrow>
             bind_io (console_error
                        [Txt (js ''Could not find #chr-content div for chapter:''), Txt ident]) (\<lambda>_.
             throw (Error (js ''Chapter content container not found.'')))
         | Some contentHtml \<Rightarrow>
             let content = cleanHtmlText contentHtml in
             if content = [] then
               bind_io (console_warn
                          [Txt (js ''Extracted content is empty for chapter:''), Txt ident]) (\<lambda>_.
               throw (Error (js ''Extracted chapter content is empty.'')))
             else return content))
        (\<lambda>error.
           bind_io (console_error
                      [Txt (js ''Get Content Error for ID '' @ ident @ js '':''), Obj error])
             (\<lambda>_. throw (Error (js ''Failed to get content for '' @ ident @ js '': ''
                                  @ message error))))))"

section \<open>The module for readwn.com (part 000)\<close>

subsection \<open>getContent (227-277)\<close>






section \<open>The module for mangapill.com (part 001)\<close>

text \<open>
  A capture that is stored as it is (\<open>coverUrl: match[2]\<close>, \<open>id: match[1]\<close>) keeps
  its type: a string or \<open>undefined\<close>.
\<close>

record mp_search_result =
  mr_id :: jsstring
  mr_title :: jsstring
  mr_author :: jsstring
  mr_coverUrl :: "jsstring option"
  mr_description :: jsstring

record mp_chapter_ref =
  mc_id :: "jsstring option"
  mc_title :: jsstring

record mp_book_details =
  md_id :: jsstring
  md_title :: jsstring
  md_author :: jsstring
  md_coverUrl :: "jsstring option"
  md_description :: jsstring
  md_genres :: "jsstring list"
  md_status :: jsstring
  md_type :: jsstring
  md_chapters :: "mp_chapter_ref list"

definition baseURL :: jsstring where
  "baseURL = js ''https://mangapill.com''"

definition mp_options :: "(string \<times> jsstring) list" where
  "mp_options = [(''method'', js ''GET''), (''Referer'', baseURL @ js ''/'')]"

subsection \<open>search (60-115)\<close>

definition itemRegex :: regexp where
  "itemRegex =
     re [lits ''<a href=\"'', Group 1 (Seq (lits ''/manga/'') (Plus (non ''\"''))), lits ''\"'',
         Star (non ''>''), lits ''>'', Star ws, lits ''<img'', Plus (non ''>''),
         lits ''data-src=\"'', Group 2 (Plus (non ''\"'')), lits ''\"'', Star (non ''>''),
         lits ''alt=\"'', Group 3 (Plus (non ''\"'')), lits ''\"'', Star (non ''>''), lits ''>'',
         Star ws, lits ''</a>'', Star ws, lits ''<div class=\"mt-3 font-bold'', Star (non ''\"''),
         lits ''\">'', Group 4 (Plus (non ''<'')), lits ''</div>''] ''gi''"

fun mp_search_results :: "match list \<Rightarrow> mp_search_result list \<Rightarrow> mp_search_result list io" where
  "mp_search_results [] results = return results"
| "mp_search_results (m # matches) results =
     (if truthy (at m 1) \<and> startsWith (ToString (at m 1)) (js ''/manga/'') then
        bind_io (trimmed m 4) (\<lambda>title.
        mp_search_results matches
          (results @
           [\<lparr>mr_id = ToString (at m 1), mr_title = title, mr_author = [],
             mr_coverUrl = at m 2, mr_description = []\<rparr>]))
      else mp_search_results matches results)"

definition mp_search :: "fetch \<Rightarrow> jsstring \<Rightarrow> mp_search_result list io" where
  "mp_search fetch query =
     (case encodeURIComponent query of
        Inl e \<Rightarrow> throw e
      | Inr q \<Rightarrow>
          let searchURL = baseURL @ js ''/search?q='' @ q in
          bind_io (console_log [Txt (js ''Searching MangaPill: '' @ searchURL)]) (\<lambda>_.
          try_catch
            (bind_io (await_fetch fetch searchURL mp_options) (\<lambda>response.
               if \<not> ok response then
                 bind_io (console_error
                            [Txt (js ''Search failed: '' @ to_string (status response) @ js '' ''
                                  @ statusText response)])
                   (\<lambda>_. return [])
               else
                 let html = content response in
                 bind_io (await_loop (extractAll html itemRegex)) (\<lambda>matches.
                 bind_io (console_log
                            [Txt (js ''Found '' @ to_string (length matches)
                                  @ js '' potential search results.'')]) (\<lambda>_.
                 bind_io (mp_search_results matches []) (\<lambda>results.
                 bind_io (console_log
                            [Txt (js ''Parsed '' @ to_string (length results)
                                  @ js '' valid results.'')]) (\<lambda>_.
                 return results))))))
            (\<lambda>error.
               bind_io (console_error [Txt (js ''MangaPill Search Error:''), Obj error])
                 (\<lambda>_. return []))))"

subsection \<open>getBookDetails (122-209)\<close>

definition mp_title_re :: regexp where
  "mp_title_re = re [lits ''<h1'', Star (non ''>''), lits ''>'', Group 1 (Plus (non ''<'')),
                     lits ''</h1>''] ''i''"

definition mp_cover_re :: regexp where
  "mp_cover_re = re [lits ''<img'', Plus (non ''>''), lits ''class=\"'', Star (non ''\"''),
                     lits ''mb-3'', Star (non ''\"''), lits ''\"'', Star (non ''>''),
                     lits ''data-src=\"'', Group 1 (Plus (non ''\"'')), lits ''\"''] ''i''"

definition mp_cover_alt_re :: regexp where
  "mp_cover_alt_re =
     re [lits ''<div class=\"flex flex-col sm:flex-row my-3\">'', Star ws, lits ''<div>'', Star ws,
         lits ''<img'', Plus (non ''>''), lits ''data-src=\"'', Group 1 (Plus (non ''\"'')),
         lits ''\"''] ''i''"

definition mp_description_re :: regexp where
  "mp_description_re =
     re [lits ''<p class=\"text-sm'', Star (non ''\"''), lits ''\">'', Star ws,
         Group 1 (Seq (Plus (non ''<'')) (Star (Seq (Plus ws) (Plus (non ''<''))))), Star ws,
         lits ''</p>''] ''i''"

definition labelled_re :: "string \<Rightarrow> regexp" where
  "labelled_re label =
     re [lits ''<div>'', lits label, lits ''</div>'', Star ws, lits ''<div'', Star (non ''>''),
         lits ''>'', Group 1 (Plus (non ''<'')), lits ''</div>''] ''i''"

definition mp_genreRegex :: regexp where
  "mp_genreRegex =
     re [lits ''<a'', Plus (non ''>''), lits ''href=\"/search?genre='', Plus (non ''\"''), lits ''\"'',
         Star (non ''>''), lits ''>'', Group 1 (Plus (non ''<'')), lits ''</a>''] ''gi''"

definition mp_chapterList_re :: regexp where
  "mp_chapterList_re = re [lits ''<div id=\"chapters\"'', Star (non ''>''), lits ''>'',
                           Group 1 (LazyStar (Atom Dot)), lits ''</div>''] ''is''"

definition mp_chapterRegex :: regexp where
  "mp_chapterRegex =
     re [lits ''<a href=\"'', Group 1 (Seq (lits ''/chapters/'') (Plus (non ''\"''))), lits ''\"'',
         Star (non ''>''), lits ''>'', Star ws, Group 2 (Plus (non ''<'')), Star ws,
         lits ''</a>''] ''gi''"

fun mp_chapter_refs :: "match list \<Rightarrow> mp_chapter_ref list \<Rightarrow> mp_chapter_ref list io" where
  "mp_chapter_refs [] chapters = return chapters"
| "mp_chapter_refs (m # ms) chapters =
     bind_io (trimmed m 2) (\<lambda>chapterTitle.
     mp_chapter_refs ms (chapters @ [\<lparr>mc_id = at m 1, mc_title = chapterTitle\<rparr>]))"

text \<open>Lines 173-190; here the source calls \<open>html.match\<close> itself and reads index 1.\<close>

definition mp_chapters_field :: "jsstring \<Rightarrow> mp_chapter_ref list io" where
  "mp_chapters_field html =
     (case string_match html mp_chapterList_re of
        None \<Rightarrow> return []
      | Some chapterListHtmlMatch \<Rightarrow>
          if truthy (at chapterListHtmlMatch 1) then
            let chapterListHtml = ToString (at chapterListHtmlMatch 1) in
            bind_io (await_loop (extractAll chapterListHtml mp_chapterRegex)) (\<lambda>chapterMatches.
            bind_io (mp_chapter_refs chapterMatches []) (\<lambda>chapters.
            return (rev chapters)))
          else return [])"

definition mp_getBookDetails :: "fetch \<Rightarrow> jsstring \<Rightarrow> mp_book_details io" where
  "mp_getBookDetails fetch ident =
     (let bookURL = baseURL @ ident in
      bind_io (console_log [Txt (js ''Fetching details for: '' @ bookURL)]) (\<lambda>_.
      try_catch
        (bind_io (await_fetch fetch bookURL mp_options) (\<lambda>response.
         if \<not> ok response then
           throw (Error (js ''Failed to fetch book details: '' @ to_string (status response)))
         else
           let html = content response in
           bind_io (text_field (extractFirst html mp_title_re) (js ''Unknown Title'')) (\<lambda>title.
           let coverMatch = nullish (extractFirst html mp_cover_re)
                                    (extractFirst html mp_cover_alt_re);
               coverUrl = (case coverMatch of None \<Rightarrow> Some [] | Some g \<Rightarrow> at g 0)
           in
           bind_io (text_field (extractFirst html mp_description_re)
                      (js ''No description available.'')) (\<lambda>description.
           bind_io (text_field (nullish (extractFirst html (labelled_re ''Author(s)''))
                                        (extractFirst html (labelled_re ''Author'')))
                      (js ''N/A'')) (\<lambda>author.
           bind_io (text_field (extractFirst html (labelled_re ''Status'')) (js ''N/A'')) (\<lambda>status.
           bind_io (text_field (extractFirst html (labelled_re ''Type'')) (js ''N/A'')) (\<lambda>type.
           bind_io (await_loop (extractAll html mp_genreRegex)) (\<lambda>genreMatches.
           bind_io (trimmed_all genreMatches) (\<lambda>genres.
           bind_io (mp_chapters_field html) (\<lambda>chapters.
           return \<lparr>md_id = ident, md_title = title, md_author = author, md_coverUrl = coverUrl,
                   md_description = description, md_genres = genres, md_status = status,
                   md_type = type, md_chapters = chapters\<rparr>))))))))))
        (\<lambda>error.
           bind_io (console_error
                      [Txt (js ''Get Book Details Error for ID '' @ ident @ js '':''), Obj error])
             (\<lambda>_. throw (Error (js ''Failed to get details for '' @ ident @ js '': ''
                                  @ message error))))))"

subsection \<open>getContent (216-271)\<close>

definition pageRegex :: regexp where
  "pageRegex =
     re [lits ''<chapter-page'', Star (non ''>''), lits ''>'', Star ws, lits ''<picture'',
         Star (seqs [Star (non ''>''), Star ws, lits ''>'', Star ws, lits ''<source'',
                     Star (non ''>''), lits ''>'']),
         Star (non ''>''), Star ws, lits ''<img'', Plus (non ''>''), lits ''data-src=\"'',
         Group 1 (Plus (non ''\"'')), lits ''\"''] ''gi''"

definition fallbackPageRegex :: regexp where
  "fallbackPageRegex = re [lits ''<img'', Plus (non ''>''), lits ''data-src=\"'',
                           Group 1 (Plus (non ''\"'')), lits ''\"''] ''gi''"




section \<open>Analysis of the matcher\<close>

text \<open>
  \<open>min_len r\<close> is a lower bound of the length of every match of \<open>r\<close>; \<open>binds r n\<close> says
  that group \<open>n\<close> takes part in every match of \<open>r\<close>; \<open>document_matches\<close> lists the
  matches of a pattern from an index on, each searched from the end of the one
  before, with the indices where it starts and ends.
\<close>

fun min_len :: "regex \<Rightarrow> nat" where
  "min_len Eps = 0"
| "min_len (Atom a) = 1"
| "min_len (Seq r1 r2) = min_len r1 + min_len r2"
| "min_len (Alt r1 r2) = min (min_len r1) (min_len r2)"
| "min_len (Star r) = 0"
| "min_len (LazyStar r) = 0"
| "min_len (Group n r) = min_len r"
| "min_len Eoi = 0"

lemma rmatch_Star_cases:
  assumes "(caps', s') \<in> set (rmatch fl (Star r) (caps, s))"
  obtains "caps' = caps" "s' = s"
  | c1 s1 where "(c1, s1) \<in> set (rmatch fl r (caps, s))" "length s1 < length s"
      "(caps', s') \<in> set (rmatch fl (Star r) (c1, s1))"
proof -
  from assms have "(caps', s') \<in> set (concat (map (\<lambda>(c1, s1). if length s1 < length s
          then rmatch fl (Star r) (c1, s1) else []) (rmatch fl r (caps, s))) @ [(caps, s)])"
    by (subst (asm) rmatch.simps(5)) assumption
  then show thesis using that by (auto split: if_splits)
qed

lemma rmatch_LazyStar_cases:
  assumes "(caps', s') \<in> set (rmatch fl (LazyStar r) (caps, s))"
  obtains "caps' = caps" "s' = s"
  | c1 s1 where "(c1, s1) \<in> set (rmatch fl r (caps, s))" "length s1 < length s"
      "(caps', s') \<in> set (rmatch fl (LazyStar r) (c1, s1))"
proof -
  from assms have "(caps', s') \<in> set ((caps, s) # concat (map (\<lambda>(c1, s1). if length s1 < length s
          then rmatch fl (LazyStar r) (c1, s1) else []) (rmatch fl r (caps, s))))"
    by (subst (asm) rmatch.simps(6)) assumption
  then show thesis using that by (auto split: if_splits)
qed

lemma rmatch_Seq_cases:
  assumes "(caps', s') \<in> set (rmatch fl (Seq r1 r2) (caps, s))"
  obtains c1 s1 where "(c1, s1) \<in> set (rmatch fl r1 (caps, s))"
      "(caps', s') \<in> set (rmatch fl r2 (c1, s1))"
  using assms by auto

lemma rmatch_min_len:
  "(caps', s') \<in> set (rmatch fl r (caps, s)) \<Longrightarrow> length s' + min_len r \<le> length s"
proof (induction fl r "(caps, s)" arbitrary: caps s caps' s' rule: rmatch.induct)
  case (1 fl caps s)
  then show ?case by simp
next
  case (2 fl a caps s)
  then show ?case by (auto split: list.splits if_splits)
next
  case (3 fl r1 r2 caps s)
  from "3.prems" obtain c1 s1 where m: "(c1, s1) \<in> set (rmatch fl r1 (caps, s))"
    and s: "(caps', s') \<in> set (rmatch fl r2 (c1, s1))"
    by (rule rmatch_Seq_cases)
  from "3.hyps"(1) [OF m] "3.hyps"(2) [OF m s] show ?case by simp
next
  case (4 fl r1 r2 caps s)
  from "4.prems" have "(caps', s') \<in> set (rmatch fl r1 (caps, s))
      \<or> (caps', s') \<in> set (rmatch fl r2 (caps, s))"
    by simp
  with "4.hyps" show ?case by fastforce
next
  case (5 fl r caps s)
  from "5.prems" show ?case
  proof (cases rule: rmatch_Star_cases)
    case 1
    then show ?thesis by simp
  next
    case (2 c1 s1)
    from "5.hyps"(2) [OF 2(1) refl 2(2) 2(3)] 2(2) show ?thesis by simp
  qed
next
  case (6 fl r caps s)
  from "6.prems" show ?case
  proof (cases rule: rmatch_LazyStar_cases)
    case 1
    then show ?thesis by simp
  next
    case (2 c1 s1)
    from "6.hyps"(2) [OF 2(1) refl 2(2) 2(3)] 2(2) show ?thesis by simp
  qed
next
  case (7 fl n r caps s)
  from "7.prems" obtain c1 where "(c1, s') \<in> set (rmatch fl r (caps, s))" by auto
  from "7.hyps" [OF this] show ?case by simp
next
  case (8 fl caps s)
  from "8.prems" show ?case by (auto split: if_splits)
qed

lemma find_match_progress:
  "find_match fl r i s = Some (j, m, e) \<Longrightarrow> j + min_len r \<le> e"
proof (induction s arbitrary: i)
  case Nil
  then obtain caps s' rest where "rmatch fl r ([], []) = (caps, s') # rest"
    by (auto split: list.splits)
  then have "(caps, s') \<in> set (rmatch fl r ([], []))" by simp
  from rmatch_min_len [OF this] Nil show ?case by (auto split: list.splits)
next
  case (Cons c t)
  show ?case
  proof (cases "rmatch fl r ([], c # t)")
    case Nil
    with Cons.prems have "find_match fl r (Suc i) t = Some (j, m, e)" by simp
    from Cons.IH [OF this] show ?thesis .
  next
    case (Cons st rest)
    obtain caps s' where st: "st = (caps, s')" by (cases st)
    have "(caps, s') \<in> set (rmatch fl r ([], c # t))" using Cons st by simp
    from rmatch_min_len [OF this] rmatch_length [OF this]
    have "length s' + min_len r \<le> Suc (length t)" "length s' \<le> Suc (length t)" by simp_all
    with Cons st Cons.prems show ?thesis by (auto simp: Let_def)
  qed
qed

text \<open>The loop of extractAll ends when every match moves lastIndex on.\<close>

lemma extractAll_loop_terminates:
  assumes g: "global (rflags regex)" and p: "0 < min_len (pattern regex)"
  shows "\<exists>ms. extractAll_loop regex html lastIndex matches = Some ms"
proof (induction "Suc (length html) - lastIndex" arbitrary: lastIndex matches rule: less_induct)
  case less
  show ?case
  proof (cases "exec regex lastIndex html")
    case (Pair r li')
    show ?thesis
    proof (cases r)
      case None
      with Pair show ?thesis by (subst extractAll_loop.simps) simp
    next
      case (Some m)
      with Pair g have le: "lastIndex \<le> length html"
        by (auto simp: exec_def split: if_splits)
      with Pair Some g obtain j where
        fm: "find_match (rflags regex) (pattern regex) lastIndex (drop lastIndex html) = Some (j, m, li')"
        by (auto simp: exec_def split: if_splits option.splits)
      from find_match_bounds [OF fm] find_match_progress [OF fm] p le
      have "lastIndex < li'" "li' \<le> length html" by auto
      then have "Suc (length html) - li' < Suc (length html) - lastIndex" by simp
      from less [OF this] obtain ms where
        "extractAll_loop regex html li' (matches @ [m]) = Some ms" by blast
      with Pair Some show ?thesis by (subst extractAll_loop.simps) simp
    qed
  qed
qed

lemma extractAll_loop_stuck:
  assumes "exec regex lastIndex html = (Some m, lastIndex)"
  shows "extractAll_loop regex html lastIndex matches = None"
proof (rule ccontr)
  assume "extractAll_loop regex html lastIndex matches \<noteq> None"
  then obtain y where y: "extractAll_loop regex html lastIndex matches = Some y" by auto
  have "\<forall>m. exec regex lastIndex html \<noteq> (Some m, lastIndex)"
  proof (rule extractAll_loop.raw_induct
      [where P = "\<lambda>r h l ms y. \<forall>m. exec r l h \<noteq> (Some m, l)", OF _ y])
    fix loop :: "regexp \<Rightarrow> jsstring \<Rightarrow> nat \<Rightarrow> match list \<Rightarrow> match list option"
      and r h l ms z
    assume IH: "\<And>r h l ms z. loop r h l ms = Some z \<Longrightarrow> \<forall>m. exec r l h \<noteq> (Some m, l)"
      and step: "(case exec r l h of (None, l') \<Rightarrow> Some ms
                  | (Some m, l') \<Rightarrow> loop r h l' (ms @ [m])) = Some z"
    show "\<forall>m. exec r l h \<noteq> (Some m, l)"
    proof (intro allI notI)
      fix m assume e: "exec r l h = (Some m, l)"
      with step have "loop r h l (ms @ [m]) = Some z" by simp
      from IH [OF this] e show False by blast
    qed
  qed
  with assms show False by blast
qed

fun binds :: "regex \<Rightarrow> nat \<Rightarrow> bool" where
  "binds Eps n = False"
| "binds (Atom a) n = False"
| "binds (Seq r1 r2) n = (binds r1 n \<or> binds r2 n)"
| "binds (Alt r1 r2) n = (binds r1 n \<and> binds r2 n)"
| "binds (Star r) n = False"
| "binds (LazyStar r) n = False"
| "binds (Group k r) n = (k = n \<or> binds r n)"
| "binds Eoi n = False"

lemma rmatch_keeps:
  "(caps', s') \<in> set (rmatch fl r (caps, s)) \<Longrightarrow> n \<in> fst ` set caps \<Longrightarrow> n \<in> fst ` set caps'"
proof (induction fl r "(caps, s)" arbitrary: caps s caps' s' rule: rmatch.induct)
  case (1 fl caps s)
  then show ?case by simp
next
  case (2 fl a caps s)
  then show ?case by (auto split: list.splits if_splits)
next
  case (3 fl r1 r2 caps s)
  from "3.prems"(1) obtain c1 s1 where m: "(c1, s1) \<in> set (rmatch fl r1 (caps, s))"
    and s: "(caps', s') \<in> set (rmatch fl r2 (c1, s1))"
    by (rule rmatch_Seq_cases)
  from "3.hyps"(2) [OF m s "3.hyps"(1) [OF m "3.prems"(2)]] show ?case .
next
  case (4 fl r1 r2 caps s)
  from "4.prems" have "(caps', s') \<in> set (rmatch fl r1 (caps, s))
      \<or> (caps', s') \<in> set (rmatch fl r2 (caps, s))"
    by simp
  with "4.hyps" "4.prems"(2) show ?case by blast
next
  case (5 fl r caps s)
  from "5.prems"(1) show ?case
  proof (cases rule: rmatch_Star_cases)
    case 1
    with "5.prems" show ?thesis by simp
  next
    case (2 c1 s1)
    from "5.hyps"(2) [OF 2(1) refl 2(2) 2(3) "5.hyps"(1) [OF 2(1) "5.prems"(2)]] show ?thesis .
  qed
next
  case (6 fl r caps s)
  from "6.prems"(1) show ?case
  proof (cases rule: rmatch_LazyStar_cases)
    case 1
    with "6.prems" show ?thesis by simp
  next
    case (2 c1 s1)
    from "6.hyps"(2) [OF 2(1) refl 2(2) 2(3) "6.hyps"(1) [OF 2(1) "6.prems"(2)]] show ?thesis .
  qed
next
  case (7 fl k r caps s)
  from "7.prems"(1) obtain c1 where c1: "(c1, s') \<in> set (rmatch fl r (caps, s))"
    and caps': "caps' = (k, take (length s - length s') s) # c1" by auto
  from "7.hyps" [OF c1 "7.prems"(2)] caps' show ?case by simp
next
  case (8 fl caps s)
  from "8.prems" show ?case by (auto split: if_splits)
qed

lemma rmatch_binds:
  "(caps', s') \<in> set (rmatch fl r (caps, s)) \<Longrightarrow> binds r n \<Longrightarrow> n \<in> fst ` set caps'"
proof (induction fl r "(caps, s)" arbitrary: caps s caps' s' rule: rmatch.induct)
  case (3 fl r1 r2 caps s)
  from "3.prems"(1) obtain c1 s1 where m: "(c1, s1) \<in> set (rmatch fl r1 (caps, s))"
    and s: "(caps', s') \<in> set (rmatch fl r2 (c1, s1))"
    by (rule rmatch_Seq_cases)
  from "3.prems"(2) consider "binds r1 n" | "binds r2 n" by auto
  then show ?case
  proof cases
    case 1
    from rmatch_keeps [OF s "3.hyps"(1) [OF m 1]] show ?thesis .
  next
    case 2
    from "3.hyps"(2) [OF m s 2] show ?thesis .
  qed
next
  case (4 fl r1 r2 caps s)
  from "4.prems" have "(caps', s') \<in> set (rmatch fl r1 (caps, s))
      \<or> (caps', s') \<in> set (rmatch fl r2 (caps, s))"
    by simp
  with "4.hyps" "4.prems"(2) show ?case by auto
next
  case (7 fl k r caps s)
  from "7.prems"(1) obtain c1 where c1: "(c1, s') \<in> set (rmatch fl r (caps, s))"
    and caps': "caps' = (k, take (length s - length s') s) # c1" by auto
  show ?case
  proof (cases "k = n")
    case True
    with caps' show ?thesis by simp
  next
    case False
    with "7.prems"(2) have "binds r n" by simp
    from "7.hyps" [OF c1 this] caps' show ?thesis by simp
  qed
qed simp_all

lemma binds_ngroups: "binds r n \<Longrightarrow> n \<le> ngroups r"
  by (induction r) auto

lemma mk_match_binds:
  assumes "(caps, s') \<in> set (rmatch fl r ([], s))" and "binds r n" and "0 < n"
  shows "\<exists>t. at (mk_match r w caps) n = Some t"
proof -
  from rmatch_binds [OF assms(1,2)] have "n \<in> fst ` set caps" .
  then obtain t where t: "map_of caps n = Some t"
    by (cases "map_of caps n") (auto simp: map_of_eq_None_iff)
  from binds_ngroups [OF assms(2)] assms(3) obtain k where k: "n = Suc k" "k < ngroups r"
    by (cases n) auto
  have "map (map_of caps) [1..<Suc (ngroups r)] ! k = map_of caps ([1..<Suc (ngroups r)] ! k)"
    using k by (intro nth_map) simp
  also have "[1..<Suc (ngroups r)] ! k = n" using k nth_upt [of 1 k "Suc (ngroups r)"] by simp
  finally show ?thesis using k t by (simp add: at_def mk_match_def)
qed

lemma find_match_binds:
  assumes "find_match fl r i s = Some (j, m, e)" and "binds r n" and "0 < n"
  shows "\<exists>t. at m n = Some t"
  using assms(1)
proof (induction s arbitrary: i)
  case Nil
  then obtain caps s' rest where r: "rmatch fl r ([], []) = (caps, s') # rest"
    and m: "m = mk_match r [] caps"
    by (auto split: list.splits)
  from r have "(caps, s') \<in> set (rmatch fl r ([], []))" by simp
  from mk_match_binds [OF this assms(2,3)] m show ?case by simp
next
  case (Cons c t)
  show ?case
  proof (cases "rmatch fl r ([], c # t)")
    case Nil
    with Cons.prems have "find_match fl r (Suc i) t = Some (j, m, e)" by simp
    from Cons.IH [OF this] show ?thesis .
  next
    case (Cons st rest)
    obtain caps s' where st: "st = (caps, s')" by (cases st)
    have in_set: "(caps, s') \<in> set (rmatch fl r ([], c # t))" using Cons st by simp
    from Cons st Cons.prems
    have "m = mk_match r (take (length (c # t) - length s') (c # t)) caps"
      by (auto simp: Let_def)
    with mk_match_binds [OF in_set assms(2,3)] show ?thesis by simp
  qed
qed

function document_matches :: "flags \<Rightarrow> regex \<Rightarrow> nat \<Rightarrow> jsstring \<Rightarrow> (nat \<times> match \<times> nat) list" where
  "document_matches fl r i s =
     (case find_match fl r i s of
        None \<Rightarrow> []
      | Some (j, m, e) \<Rightarrow>
          (j, m, e) # (if i < e then document_matches fl r e (drop (e - i) s) else []))"
  by pat_completeness auto
termination
proof (relation "measure (\<lambda>(fl, r, i, s). length s)", goal_cases)
  case 1
  show ?case by simp
next
  case (2 fl r i s x2 j y m e)
  then have "find_match fl r i s = Some (j, m, e)" by simp
  from find_match_bounds [OF this] 2 show ?case by auto
qed

declare document_matches.simps [simp del]

lemma find_match_text:
  "find_match fl r i s = Some (j, m, e) \<Longrightarrow> at m 0 = Some (take (e - j) (drop (j - i) s))"
proof (induction s arbitrary: i)
  case Nil
  then show ?case by (auto simp: at_def mk_match_def split: list.splits)
next
  case (Cons c t)
  show ?case
  proof (cases "rmatch fl r ([], c # t)")
    case Nil
    with Cons.prems have fm: "find_match fl r (Suc i) t = Some (j, m, e)" by simp
    from find_match_bounds [OF fm] have "Suc i \<le> j" by simp
    then have "drop (j - i) (c # t) = drop (j - Suc i) t"
      by (metis Suc_diff_le diff_Suc_Suc drop_Suc_Cons)
    with Cons.IH [OF fm] show ?thesis by simp
  next
    case (Cons st rest)
    obtain caps s' where st: "st = (caps, s')" by (cases st)
    with Cons Cons.prems show ?thesis by (auto simp: Let_def at_def mk_match_def)
  qed
qed

lemma extractAll_loop_document_matches:
  assumes g: "global (rflags regex)" and p: "0 < min_len (pattern regex)"
    and le: "lastIndex \<le> length html"
  shows "extractAll_loop regex html lastIndex matches =
         Some (matches @ map (\<lambda>(j, m, e). m)
                 (document_matches (rflags regex) (pattern regex) lastIndex (drop lastIndex html)))"
  using le
proof (induction "length html - lastIndex" arbitrary: lastIndex matches rule: less_induct)
  case less
  let ?fl = "rflags regex" and ?r = "pattern regex"
  show ?case
  proof (cases "find_match ?fl ?r lastIndex (drop lastIndex html)")
    case None
    with g less.prems have "exec regex lastIndex html = (None, 0)" by (simp add: exec_def)
    with None show ?thesis
      by (subst extractAll_loop.simps) (simp add: document_matches.simps)
  next
    case (Some a)
    obtain j m e where a: "a = (j, m, e)" by (cases a)
    with Some have fm: "find_match ?fl ?r lastIndex (drop lastIndex html) = Some (j, m, e)" by simp
    from find_match_bounds [OF fm] find_match_progress [OF fm] p less.prems
    have lt: "lastIndex < e" and ele: "e \<le> length html" by auto
    from g less.prems fm have ex: "exec regex lastIndex html = (Some m, e)" by (simp add: exec_def)
    from lt ele have "length html - e < length html - lastIndex" by simp
    from less.hyps [OF this ele]
    have "extractAll_loop regex html e (matches @ [m]) =
          Some ((matches @ [m]) @ map (\<lambda>(j, m, e). m) (document_matches ?fl ?r e (drop e html)))" .
    moreover have "drop (e - lastIndex) (drop lastIndex html) = drop e html" using lt by simp
    ultimately show ?thesis using ex fm lt
      by (subst extractAll_loop.simps) (simp add: document_matches.simps [of _ _ lastIndex])
  qed
qed

lemma document_matches_ordered:
  "0 < min_len r \<Longrightarrow>
   sorted_wrt (\<lambda>(j, m, e) (j', m', e'). e \<le> j') (document_matches fl r i s)
         \<and> (\<forall>(j, m, e) \<in> set (document_matches fl r i s). i \<le> j \<and> j < e \<and> e \<le> i + length s
              \<and> at m 0 = Some (take (e - j) (drop (j - i) s)))"
proof (induction fl r i s rule: document_matches.induct)
  case (1 fl r i s)
  note p = "1.prems"
  show ?case
  proof (cases "find_match fl r i s")
    case None
    then show ?thesis by (simp add: document_matches.simps)
  next
    case (Some a)
    obtain j m e where a: "a = (j, m, e)" by (cases a)
    with Some have fm: "find_match fl r i s = Some (j, m, e)" by simp
    from find_match_bounds [OF fm] find_match_progress [OF fm] p
    have b: "i \<le> j" "j < e" "e \<le> i + length s" by auto
    then have lt: "i < e" by simp
    note IHc = "1.IH" [OF fm refl refl lt p]
    note IH = IHc [THEN conjunct1] IHc [THEN conjunct2]
    have dm: "document_matches fl r i s = (j, m, e) # document_matches fl r e (drop (e - i) s)"
      using fm lt by (simp add: document_matches.simps [of _ _ i])
    have "\<forall>(j', m', e') \<in> set (document_matches fl r e (drop (e - i) s)).
            e \<le> j' \<and> i \<le> j' \<and> j' < e' \<and> e' \<le> i + length s
            \<and> at m' 0 = Some (take (e' - j') (drop (j' - i) s))"
    proof (clarify)
      fix j' m' e' assume "(j', m', e') \<in> set (document_matches fl r e (drop (e - i) s))"
      with IH(2) have h: "e \<le> j'" "j' < e'" "e' \<le> e + length (drop (e - i) s)"
        "at m' 0 = Some (take (e' - j') (drop (j' - e) (drop (e - i) s)))" by auto
      from h(1) lt have "j' - e + (e - i) = j' - i" by simp
      with h b lt show "e \<le> j' \<and> i \<le> j' \<and> j' < e' \<and> e' \<le> i + length s
            \<and> at m' 0 = Some (take (e' - j') (drop (j' - i) s))" by auto
    qed
    with IH(1) b find_match_text [OF fm] show ?thesis
      unfolding dm by (auto simp del: at_def)
  qed
qed

lemma find_match_empty:
  assumes "0 < min_len r"
  shows "find_match fl r i [] = None"
proof (cases "find_match fl r i []")
  case (Some a)
  obtain j m e where "a = (j, m, e)" by (cases a)
  with Some have fm: "find_match fl r i [] = Some (j, m, e)" by simp
  from find_match_bounds [OF fm] find_match_progress [OF fm] assms show ?thesis by simp
qed simp

lemma patterns_advance:
  "global (rflags comprehensiveItemRegex) \<and> 0 < min_len (pattern comprehensiveItemRegex)"
  "global (rflags genreRegex) \<and> 0 < min_len (pattern genreRegex)"
  "global (rflags chapterRegex) \<and> 0 < min_len (pattern chapterRegex)"
  "global (rflags itemRegex) \<and> 0 < min_len (pattern itemRegex)"
  "global (rflags mp_genreRegex) \<and> 0 < min_len (pattern mp_genreRegex)"
  "global (rflags mp_chapterRegex) \<and> 0 < min_len (pattern mp_chapterRegex)"
  "global (rflags pageRegex) \<and> 0 < min_len (pattern pageRegex)"
  "global (rflags fallbackPageRegex) \<and> 0 < min_len (pattern fallbackPageRegex)"
  by (simp_all add: comprehensiveItemRegex_def genreRegex_def chapterRegex_def itemRegex_def
      mp_genreRegex_def mp_chapterRegex_def pageRegex_def fallbackPageRegex_def
      re_def seqs_def lits_def Plus_def)

section \<open>Outcomes of the operations\<close>

text \<open>The outcome and the console of a composed operation, and when the parts of
  the operations return.\<close>

lemma snd_bind_io:
  "snd (bind_io m f) =
     (case snd m of Returns x \<Rightarrow> snd (f x) | Throws e \<Rightarrow> Throws e | Diverges \<Rightarrow> Diverges)"
  by (cases m) (auto simp: bind_io_def split: outcome.splits prod.splits)

lemma fst_bind_io:
  "fst (bind_io m f) = (case snd m of Returns x \<Rightarrow> fst m @ fst (f x) | _ \<Rightarrow> fst m)"
  by (cases m) (auto simp: bind_io_def split: outcome.splits prod.splits)

lemma snd_try_catch:
  "snd (try_catch m h) = (case snd m of Throws e \<Rightarrow> snd (h e) | r \<Rightarrow> r)"
  by (cases m) (auto simp: try_catch_def split: outcome.splits prod.splits)

lemma fst_try_catch:
  "fst (try_catch m h) = (case snd m of Throws e \<Rightarrow> fst m @ fst (h e) | r \<Rightarrow> fst m)"
  by (cases m) (auto simp: try_catch_def split: outcome.splits prod.splits)

lemma snd_basic [simp]:
  "snd (return x) = Returns x"
  "snd (throw e) = Throws e"
  "snd (console_log a) = Returns ()"
  "snd (console_warn a) = Returns ()"
  "snd (console_error a) = Returns ()"
  by (simp_all add: return_def throw_def console_log_def console_warn_def console_error_def)

lemma fst_basic [simp]:
  "fst (return x) = []"
  "fst (throw e) = []"
  "fst (console_log a) = [(Log, a)]"
  "fst (console_warn a) = [(Warn, a)]"
  "fst (console_error a) = [(Err, a)]"
  by (simp_all add: return_def throw_def console_log_def console_warn_def console_error_def)

lemma snd_await_fetch:
  "snd (await_fetch fetch u opts) = (case fetch u opts of Inl e \<Rightarrow> Throws e | Inr r \<Rightarrow> Returns r)"
  by (simp add: await_fetch_def split: sum.splits)

lemma fst_await_fetch [simp]: "fst (await_fetch fetch u opts) = []"
  by (simp add: await_fetch_def split: sum.splits)

lemma snd_await_loop:
  "snd (await_loop r) = (case r of None \<Rightarrow> Diverges | Some x \<Rightarrow> Returns x)"
  by (simp add: await_loop_def split: option.splits)

lemma fst_await_loop [simp]: "fst (await_loop r) = []"
  by (simp add: await_loop_def split: option.splits)

lemma snd_defined:
  "snd (defined v) =
     (case v of None \<Rightarrow> Throws (TypeError (js ''Cannot read properties of undefined''))
      | Some t \<Rightarrow> Returns t)"
  by (simp add: defined_def split: option.splits)

lemma fst_defined [simp]: "fst (defined v) = []"
  by (simp add: defined_def split: option.splits)

lemmas io_simps = snd_bind_io fst_bind_io snd_try_catch fst_try_catch snd_await_fetch
  snd_await_loop snd_defined

lemma at_tl: "at (tl m) i = at m (Suc i)"
  by (cases m) (auto simp: at_def)

lemma extractFirst_binds:
  assumes "\<not> global (rflags regex)" and "binds (pattern regex) (Suc n)"
    and "extractFirst html regex = Some g"
  shows "\<exists>t. at g n = Some t"
proof -
  from assms(1,3) obtain j m e where
    fm: "find_match (rflags regex) (pattern regex) 0 html = Some (j, m, e)" and g: "g = tl m"
    by (auto simp: extractFirst_def string_match_def)
  from find_match_binds [OF fm assms(2)] g show ?thesis by (simp add: at_tl)
qed

lemma document_matches_find:
  "(j, m, e) \<in> set (document_matches fl r i s) \<Longrightarrow> \<exists>i' s'. find_match fl r i' s' = Some (j, m, e)"
proof (induction fl r i s rule: document_matches.induct)
  case (1 fl r i s)
  show ?case
  proof (cases "find_match fl r i s")
    case None
    with "1.prems" show ?thesis by (simp add: document_matches.simps)
  next
    case (Some a)
    obtain j' m' e' where a: "a = (j', m', e')" by (cases a)
    with Some have fm: "find_match fl r i s = Some (j', m', e')" by simp
    from "1.prems" fm consider "(j, m, e) = (j', m', e')"
      | "i < e'" "(j, m, e) \<in> set (document_matches fl r e' (drop (e' - i) s))"
      by (subst (asm) document_matches.simps) (auto split: if_splits)
    then show ?thesis
    proof cases
      case 1
      with fm show ?thesis by blast
    next
      case 2
      from "1.IH" [OF fm refl refl 2] show ?thesis .
    qed
  qed
qed

lemma extractAll_binds:
  assumes "global (rflags regex) \<and> 0 < min_len (pattern regex)" and "binds (pattern regex) n"
    and "0 < n"
  shows "\<exists>ms. extractAll html regex = Some ms \<and> (\<forall>m \<in> set ms. \<exists>t. at m n = Some t)"
proof -
  let ?ms = "document_matches (rflags regex) (pattern regex) 0 html"
  from assms(1) extractAll_loop_document_matches [of regex 0 html "[]"]
  have "extractAll html regex = Some (map (\<lambda>(j, m, e). m) ?ms)"
    by (simp add: extractAll_def)
  moreover have "\<forall>m \<in> set (map (\<lambda>(j, m, e). m) ?ms). \<exists>t. at m n = Some t"
  proof
    fix m assume "m \<in> set (map (\<lambda>(j, m, e). m) ?ms)"
    then obtain j e where "(j, m, e) \<in> set ?ms" by auto
    from document_matches_find [OF this] obtain i' s' where
      "find_match (rflags regex) (pattern regex) i' s' = Some (j, m, e)" by blast
    from find_match_binds [OF this assms(2,3)] show "\<exists>t. at m n = Some t" .
  qed
  ultimately show ?thesis by blast
qed

lemma snd_trimmed:
  "at m i = Some t \<Longrightarrow> snd (trimmed m i) = Returns (decodeEntities (trim t))"
  by (simp add: trimmed_def io_simps)

lemma snd_absolute:
  "at m i = Some u \<Longrightarrow>
   snd (absolute base m i) = Returns (if startsWith u (js ''http'') then u else base @ u)"
  by (simp add: absolute_def io_simps)

lemma trimmed_all_returns:
  "\<forall>m \<in> set ms. \<exists>t. at m 1 = Some t \<Longrightarrow> \<exists>gs. snd (trimmed_all ms) = Returns gs"
  by (induction ms) (auto simp: io_simps snd_trimmed)

lemma chapter_refs_returns:
  "\<forall>m \<in> set ms. \<exists>t. at m 2 = Some t \<Longrightarrow> \<exists>cs. snd (chapter_refs ms acc) = Returns cs"
  by (induction ms arbitrary: acc) (auto simp: io_simps snd_trimmed)

lemma binds_patterns:
  "\<not> global (rflags title_re) \<and> binds (pattern title_re) 1"
  "\<not> global (rflags author_re) \<and> binds (pattern author_re) 1"
  "\<not> global (rflags cover_re) \<and> binds (pattern cover_re) 1"
  "\<not> global (rflags status_re) \<and> binds (pattern status_re) 1"
  "binds (pattern genreRegex) 1"
  "binds (pattern chapterRegex) 2"
  "binds (pattern comprehensiveItemRegex) 2 \<and> binds (pattern comprehensiveItemRegex) 3
   \<and> binds (pattern comprehensiveItemRegex) 4"
  by (simp_all add: title_re_def author_re_def cover_re_def status_re_def genreRegex_def
      chapterRegex_def comprehensiveItemRegex_def re_def seqs_def lits_def Plus_def)

lemma text_field_returns:
  assumes "\<not> global (rflags regex) \<and> binds (pattern regex) 1"
  shows "\<exists>v. snd (text_field (extractFirst html regex) d) = Returns v
             \<and> (extractFirst html regex = None \<longrightarrow> v = d)"
proof (cases "extractFirst html regex")
  case None
  then show ?thesis by (simp add: text_field_def)
next
  case (Some g)
  from extractFirst_binds [OF _ _ Some, of 0] assms obtain t where "at g 0 = Some t" by auto
  with Some show ?thesis by (simp add: text_field_def snd_trimmed)
qed

lemma coverUrl_field_returns:
  "\<exists>v. snd (coverUrl_field html) = Returns v \<and> startsWith v (js ''http'')"
proof (cases "extractFirst html cover_re")
  case None
  then show ?thesis
    by (simp add: coverUrl_field_def no_cover_def startsWith_def js_def)
next
  case (Some g)
  from extractFirst_binds [OF _ _ Some, of 0] binds_patterns(3) obtain t where "at g 0 = Some t"
    by auto
  with Some show ?thesis
    by (simp add: coverUrl_field_def snd_absolute BASE_URL_def startsWith_def js_def)
qed

lemma genres_field_returns: "\<exists>v. snd (genres_field html) = Returns v"
proof (cases "extractFirst html genreList_re")
  case None
  then show ?thesis by (simp add: genres_field_def)
next
  case (Some g)
  from extractAll_binds [OF patterns_advance(2) binds_patterns(5), of "ToString (at g 0)"]
  obtain ms where "extractAll (ToString (at g 0)) genreRegex = Some ms"
    "\<forall>m \<in> set ms. \<exists>t. at m 1 = Some t" by auto
  with Some trimmed_all_returns [of ms] show ?thesis
    by (simp add: genres_field_def io_simps)
qed

lemma parse_chapters_returns: "\<exists>cs. snd (parse_chapters h origin) = Returns cs"
proof -
  from extractAll_binds [OF patterns_advance(3) binds_patterns(6), of h]
  obtain ms where ms: "extractAll h chapterRegex = Some ms"
    "\<forall>m \<in> set ms. \<exists>t. at m 2 = Some t" by auto
  from chapter_refs_returns [OF ms(2), of "[]"] obtain cs where
    "snd (chapter_refs ms []) = Returns cs" by blast
  with ms(1) show ?thesis by (simp add: parse_chapters_def io_simps)
qed

lemma chapters_field_returns:
  assumes "\<forall>u opts e. fetch u opts \<noteq> Inl e"
  shows "\<exists>cs. snd (chapters_field fetch bookUrl ident html) = Returns cs"
proof (cases "nullish (extractFirst html novelId_re) (extractFirst html novelId_alt_re)")
  case None
  show ?thesis
  proof (cases "extractFirst html chapterList_re")
    case n: None
    with None show ?thesis by (simp add: chapters_field_def io_simps)
  next
    case (Some g)
    with None parse_chapters_returns show ?thesis
      by (simp add: chapters_field_def io_simps)
  qed
next
  case (Some g)
  let ?u = "BASE_URL @ js ''/ajax/chapter-archive?novelId='' @ ToString (at g 0)"
  let ?o = "[(''Referer'', bookUrl), (''X-Requested-With'', js ''XMLHttpRequest'')]"
  from assms obtain r where r: "fetch ?u ?o = Inr r" by (cases "fetch ?u ?o") auto
  show ?thesis
  proof (cases "ok r")
    case True
    with Some r parse_chapters_returns show ?thesis
      by (simp add: chapters_field_def Let_def io_simps)
  next
    case False
    with Some r show ?thesis
      by (simp add: chapters_field_def Let_def io_simps)
  qed
qed

lemma details_response_ok:
  "fetch bookUrl [] = Inr r \<Longrightarrow> ok r \<Longrightarrow> snd (details_response fetch bookUrl ident) = Returns r"
  by (simp add: details_response_def io_simps)

lemma getBookDetails_returns:
  assumes f: "fetch (BASE_URL @ js ''/'' @ ident @ js ''.html'') [] = Inr r" and ok: "ok r"
    and nr: "\<forall>u opts e. fetch u opts \<noteq> Inl e"
  shows "\<exists>title author coverUrl genres status chapters.
           snd (getBookDetails fetch ident) =
             Returns \<lparr>bd_id = ident, bd_title = title, bd_author = author, bd_coverUrl = coverUrl,
                      bd_description = description_field (content r), bd_genres = genres,
                      bd_status = status, bd_chapters = chapters\<rparr>
           \<and> snd (text_field (extractFirst (content r) title_re) (js ''Unknown Title'')) = Returns title
           \<and> snd (text_field (extractFirst (content r) author_re) (js ''Unknown Author'')) = Returns author
           \<and> snd (coverUrl_field (content r)) = Returns coverUrl
           \<and> snd (genres_field (content r)) = Returns genres
           \<and> snd (text_field (extractFirst (content r) status_re) (js ''Unknown'')) = Returns status"
proof -
  let ?html = "content r"
  from text_field_returns [OF binds_patterns(1)] obtain title where
    t: "snd (text_field (extractFirst ?html title_re) (js ''Unknown Title'')) = Returns title" by blast
  from text_field_returns [OF binds_patterns(2)] obtain author where
    a: "snd (text_field (extractFirst ?html author_re) (js ''Unknown Author'')) = Returns author" by blast
  from coverUrl_field_returns obtain coverUrl where
    c: "snd (coverUrl_field ?html) = Returns coverUrl" by blast
  from genres_field_returns obtain genres where
    g: "snd (genres_field ?html) = Returns genres" by blast
  from text_field_returns [OF binds_patterns(4)] obtain status where
    s: "snd (text_field (extractFirst ?html status_re) (js ''Unknown'')) = Returns status" by blast
  from chapters_field_returns [OF nr] obtain chapters where
    ch: "snd (chapters_field fetch (BASE_URL @ js ''/'' @ ident @ js ''.html'') ident ?html) = Returns chapters"
    by blast
  from details_response_ok [of fetch _ r ident, OF f ok] t a c g s ch
  have "snd (getBookDetails fetch ident) =
             Returns \<lparr>bd_id = ident, bd_title = title, bd_author = author, bd_coverUrl = coverUrl,
                      bd_description = description_field (content r), bd_genres = genres,
                      bd_status = status, bd_chapters = chapters\<rparr>"
    by (simp add: getBookDetails_def Let_def snd_bind_io snd_try_catch)
  with t a c g s show ?thesis by blast
qed

lemma getBookDetails_id:
  "snd (getBookDetails fetch ident) = Returns d \<Longrightarrow> bd_id d = ident"
  by (auto simp: getBookDetails_def Let_def snd_bind_io snd_try_catch split: outcome.splits)

lemma mp_binds_patterns:
  "\<not> global (rflags mp_title_re) \<and> binds (pattern mp_title_re) 1"
  "\<not> global (rflags mp_description_re) \<and> binds (pattern mp_description_re) 1"
  "\<not> global (rflags (labelled_re ''Author(s)'')) \<and> binds (pattern (labelled_re ''Author(s)'')) 1"
  "\<not> global (rflags (labelled_re ''Author'')) \<and> binds (pattern (labelled_re ''Author'')) 1"
  "\<not> global (rflags (labelled_re ''Status'')) \<and> binds (pattern (labelled_re ''Status'')) 1"
  "\<not> global (rflags (labelled_re ''Type'')) \<and> binds (pattern (labelled_re ''Type'')) 1"
  "binds (pattern mp_genreRegex) 1"
  "binds (pattern mp_chapterRegex) 2"
  "binds (pattern itemRegex) 4"
  by (simp_all add: mp_title_re_def mp_description_re_def labelled_re_def mp_genreRegex_def
      mp_chapterRegex_def itemRegex_def re_def seqs_def lits_def Plus_def)

lemma text_field_nullish_returns:
  assumes "\<not> global (rflags r1) \<and> binds (pattern r1) 1"
    and "\<not> global (rflags r2) \<and> binds (pattern r2) 1"
  shows "\<exists>v. snd (text_field (nullish (extractFirst html r1) (extractFirst html r2)) d) = Returns v
             \<and> (extractFirst html r1 = None \<and> extractFirst html r2 = None \<longrightarrow> v = d)"
proof (cases "extractFirst html r1")
  case None
  with text_field_returns [OF assms(2), of html d] show ?thesis by (simp add: nullish_def)
next
  case (Some g)
  with text_field_returns [OF assms(1), of html d] show ?thesis by (simp add: nullish_def)
qed

lemma mp_chapter_refs_returns:
  "\<forall>m \<in> set ms. \<exists>t. at m 2 = Some t \<Longrightarrow> \<exists>cs. snd (mp_chapter_refs ms acc) = Returns cs"
  by (induction ms arbitrary: acc) (auto simp: io_simps snd_trimmed)

lemma mp_chapters_field_returns: "\<exists>cs. snd (mp_chapters_field html) = Returns cs"
proof (cases "string_match html mp_chapterList_re")
  case None
  then show ?thesis by (simp add: mp_chapters_field_def)
next
  case (Some g)
  from extractAll_binds [OF patterns_advance(6) mp_binds_patterns(8), of "ToString (at g 1)"]
  obtain ms where ms: "extractAll (ToString (at g 1)) mp_chapterRegex = Some ms"
    "\<forall>m \<in> set ms. \<exists>t. at m 2 = Some t" by auto
  from mp_chapter_refs_returns [OF ms(2), of "[]"] obtain cs where
    "snd (mp_chapter_refs ms []) = Returns cs" by blast
  with Some ms(1) show ?thesis by (simp add: mp_chapters_field_def io_simps Let_def)
qed

lemma mp_getBookDetails_returns:
  assumes f: "fetch (baseURL @ ident) mp_options = Inr r" and ok: "ok r"
  shows "\<exists>title description author status type genres chapters.
           snd (mp_getBookDetails fetch ident) =
             Returns \<lparr>md_id = ident, md_title = title, md_author = author,
                      md_coverUrl = (case nullish (extractFirst (content r) mp_cover_re)
                                                  (extractFirst (content r) mp_cover_alt_re) of
                                       None \<Rightarrow> Some [] | Some g \<Rightarrow> at g 0),
                      md_description = description, md_genres = genres, md_status = status,
                      md_type = type, md_chapters = chapters\<rparr>
           \<and> snd (text_field (extractFirst (content r) mp_title_re) (js ''Unknown Title'')) = Returns title
           \<and> snd (text_field (extractFirst (content r) mp_description_re)
                      (js ''No description available.'')) = Returns description
           \<and> snd (text_field (nullish (extractFirst (content r) (labelled_re ''Author(s)''))
                                        (extractFirst (content r) (labelled_re ''Author'')))
                      (js ''N/A'')) = Returns author"
proof -
  let ?html = "content r"
  from text_field_returns [OF mp_binds_patterns(1)] obtain title where
    t: "snd (text_field (extractFirst ?html mp_title_re) (js ''Unknown Title'')) = Returns title" by blast
  from text_field_returns [OF mp_binds_patterns(2)] obtain description where
    d: "snd (text_field (extractFirst ?html mp_description_re) (js ''No description available.''))
        = Returns description" by blast
  from text_field_nullish_returns [OF mp_binds_patterns(3) mp_binds_patterns(4)] obtain author where
    a: "snd (text_field (nullish (extractFirst ?html (labelled_re ''Author(s)''))
                                        (extractFirst ?html (labelled_re ''Author'')))
                      (js ''N/A'')) = Returns author" by blast
  from text_field_returns [OF mp_binds_patterns(5)] obtain status where
    s: "snd (text_field (extractFirst ?html (labelled_re ''Status'')) (js ''N/A'')) = Returns status" by blast
  from text_field_returns [OF mp_binds_patterns(6)] obtain type where
    ty: "snd (text_field (extractFirst ?html (labelled_re ''Type'')) (js ''N/A'')) = Returns type" by blast
  from extractAll_binds [OF patterns_advance(5) mp_binds_patterns(7), of ?html]
  obtain ms where ms: "extractAll ?html mp_genreRegex = Some ms"
    "\<forall>m \<in> set ms. \<exists>t. at m 1 = Some t" by auto
  from trimmed_all_returns [OF ms(2)] obtain genres where
    g: "snd (trimmed_all ms) = Returns genres" by blast
  from mp_chapters_field_returns obtain chapters where
    ch: "snd (mp_chapters_field ?html) = Returns chapters" by blast
  from f ok t d a s ty ms(1) g ch
  have "snd (mp_getBookDetails fetch ident) =
             Returns \<lparr>md_id = ident, md_title = title, md_author = author,
                      md_coverUrl = (case nullish (extractFirst (content r) mp_cover_re)
                                                  (extractFirst (content r) mp_cover_alt_re) of
                                       None \<Rightarrow> Some [] | Some g \<Rightarrow> at g 0),
                      md_description = description, md_genres = genres, md_status = status,
                      md_type = type, md_chapters = chapters\<rparr>"
    by (simp add: mp_getBookDetails_def Let_def io_simps)
  with t d a show ?thesis by blast
qed

lemma search_results_not_diverges: "snd (search_results ms acc) \<noteq> Diverges"
  by (induction ms arbitrary: acc)
     (auto simp: io_simps absolute_def trimmed_def Let_def split: outcome.splits option.splits)




section \<open>Worked examples\<close>

text \<open>The equations that evaluate the model on a concrete document, and the transports
  and documents of the examples.\<close>

lemmas eval_simps = js_def re_def seqs_def lits_def alts_def Plus_def Opt_def AtLeast3_def
  rmatch.simps(5,6) mk_match_def canon_def lower_def is_space_def is_digit_def at_def
  extractFirst_def string_match_def replace_def trim_def truthy_def truthy_capture_def
  ToString_def or_else_def startsWith_def nullish_def
  uri_unreserved_def percent_def utf8_def hex_digit_def
  document_matches.simps upt_conv_Cons to_string.simps bit_length.simps
  replace_loop.simps match_texts.simps

lemmas module_simps = trimmed_def absolute_def cleaned_def text_field_def
  decodeEntities_def cleanHtmlText_def translate_re_def numeric_re_def hex_re_def
  br_re_def tag_re_def BASE_URL_def no_cover_def baseURL_def mp_options_def

lemma extractAll_eval:
  "global (rflags regex) \<and> 0 < min_len (pattern regex) \<Longrightarrow>
   extractAll html regex =
     Some (map (\<lambda>(j, m, e). m) (document_matches (rflags regex) (pattern regex) 0 html))"
  using extractAll_loop_document_matches [of regex 0 html "[]"] by (simp add: extractAll_def)

definition example_listing :: jsstring where
  "example_listing = js ''<div class=\"col-xs-3\"><a href=\"/mp\"><img src=\"/c.jpg\"></a><h3 class=\"novel-title\"><a>T</a></h3><span class=\"author\">A</span><div class=\"novel-desc\">D</div>''"

definition example_fetch :: fetch where
  "example_fetch u opts =
     Inr \<lparr>ok = True, status = 200, statusText = js ''OK'', url = u, content = example_listing\<rparr>"

definition mp_example_listing :: jsstring where
  "mp_example_listing = js ''<a href=\"/manga/1/x\"><img data-src=\"/c.jpg\" alt=\"x\"></a><div class=\"mt-3 font-bold\">X</div>''"

definition mp_example_fetch :: fetch where
  "mp_example_fetch u opts =
     Inr \<lparr>ok = True, status = 200, statusText = js ''OK'', url = u, content = mp_example_listing\<rparr>"


lemma example_search:
  "snd (search example_fetch (js ''m'')) =
     Returns [\<lparr>sr_id = js ''mp'', sr_title = js ''T'', sr_author = js ''A'',
               sr_coverUrl = js ''https://readnovelfull.com/c.jpg'', sr_description = js ''D''\<rparr>]"
proof -
  have "extractAll example_listing comprehensiveItemRegex =
        Some [[Some example_listing, Some (js ''mp''), Some (js ''/c.jpg''), Some (js ''T''),
               Some (js ''A''), Some (js ''D'')]]"
    by (subst extractAll_eval [OF patterns_advance(1)])
       (simp add: comprehensiveItemRegex_def example_listing_def eval_simps)
  then show ?thesis
    by (simp add: search_def example_fetch_def io_simps Let_def module_simps eval_simps)
qed

lemma mp_example_search:
  "snd (mp_search mp_example_fetch (js ''x'')) =
     Returns [\<lparr>mr_id = js ''/manga/1/x'', mr_title = js ''X'', mr_author = [],
               mr_coverUrl = Some (js ''/c.jpg''), mr_description = []\<rparr>]"
proof -
  have "extractAll mp_example_listing itemRegex =
        Some [[Some mp_example_listing, Some (js ''/manga/1/x''), Some (js ''/c.jpg''),
               Some (js ''x''), Some (js ''X'')]]"
    by (subst extractAll_eval [OF patterns_advance(4)])
       (simp add: itemRegex_def mp_example_listing_def eval_simps)
  then show ?thesis
    by (simp add: mp_search_def mp_example_fetch_def io_simps Let_def module_simps eval_simps)
qed

definition retry_fetch :: fetch where
  "retry_fetch u opts =
     (if u = js ''https://readnovelfull.com/x.html''
      then Inr \<lparr>ok = False, status = 404, statusText = js ''Not Found'', url = u, content = []\<rparr>
      else Inr \<lparr>ok = True, status = 200, statusText = js ''OK'', url = u,
                content = js ''<h3 class=\"title\">T</h3><div id=\"chr-content\">Hi</div>''\<rparr>)"

lemma getBookDetails_primary_not_ok:
  assumes "fetch (BASE_URL @ js ''/'' @ ident @ js ''.html'') [] = Inr r" and "\<not> ok r"
  shows "\<exists>e. snd (getBookDetails fetch ident) = Throws e"
  using assms
  by (simp add: getBookDetails_def details_response_def io_simps Let_def split: sum.splits)

lemma content_response_retry:
  assumes "fetch chapterUrl [] = Inr r1" and "\<not> ok r1"
    and "fetch (BASE_URL @ js ''/'' @ ident) [] = Inr r2"
  shows "snd (content_response fetch chapterUrl ident) =
           (if ok r2 then Returns r2
            else Throws (Error (js ''Failed to fetch chapter content (tried with and without .html): ''
                                @ to_string (status r2))))"
  using assms by (simp add: content_response_def io_simps Let_def)

lemma getContent_retry_returns:
  "snd (getContent retry_fetch (js ''x'')) = Returns (js ''Hi'')"
  by (simp add: getContent_def content_response_def io_simps Let_def retry_fetch_def
      content_re_def module_simps eval_simps)






lemma search_results_none:
  assumes "\<forall>m \<in> set ms. (\<exists>u. at m 2 = Some u) \<and> (\<exists>t. at m 4 = Some t)
             \<and> (\<exists>t. at m 3 = Some t \<and> decodeEntities (trim t) = [])"
  shows "search_results ms acc = ([], Returns acc)"
  using assms
proof (induction ms arbitrary: acc)
  case Nil
  then show ?case by (simp add: return_def)
next
  case (Cons m ms)
  then obtain u t3 t4 where "at m 2 = Some u" "at m 3 = Some t3" "decodeEntities (trim t3) = []"
    "at m 4 = Some t4" by auto
  moreover from Cons have "search_results ms acc = ([], Returns acc)" by simp
  ultimately show ?case
    by (simp add: absolute_def trimmed_def defined_def bind_io_def return_def Let_def)
qed

lemma search_never_diverges:
  "snd (search fetch query) \<noteq> Diverges"
proof (cases "encodeURIComponent query")
  case (Inl e)
  then show ?thesis by (simp add: search_def)
next
  case (Inr q)
  let ?u = "BASE_URL @ js ''/novel-list/search?keyword='' @ q"
  show ?thesis
  proof (cases "fetch ?u []")
    case (Inl e)
    with Inr show ?thesis by (simp add: search_def io_simps Let_def)
  next
    case r: (Inr r)
    from extractAll_eval [OF patterns_advance(1)] obtain ms where
      ms: "extractAll (content r) comprehensiveItemRegex = Some ms" by blast
    from search_results_not_diverges [of ms "[]"] Inr r ms show ?thesis
      by (cases "snd (search_results ms [])") (simp_all add: search_def io_simps Let_def)
  qed
qed

lemma search_not_throws:
  "encodeURIComponent query = Inr q \<Longrightarrow> snd (search fetch query) \<noteq> Throws e"
  by (auto simp: search_def io_simps Let_def split: outcome.splits sum.splits option.splits)

lemma mp_search_results_not_diverges: "snd (mp_search_results ms acc) \<noteq> Diverges"
  by (induction ms arbitrary: acc)
     (auto simp: io_simps trimmed_def Let_def split: outcome.splits option.splits)

lemma mp_search_never_diverges:
  "snd (mp_search fetch query) \<noteq> Diverges"
proof (cases "encodeURIComponent query")
  case (Inl e)
  then show ?thesis by (simp add: mp_search_def)
next
  case (Inr q)
  let ?u = "baseURL @ js ''/search?q='' @ q"
  show ?thesis
  proof (cases "fetch ?u mp_options")
    case (Inl e)
    with Inr show ?thesis by (simp add: mp_search_def io_simps Let_def)
  next
    case r: (Inr r)
    from extractAll_eval [OF patterns_advance(4)] obtain ms where
      ms: "extractAll (content r) itemRegex = Some ms" by blast
    from mp_search_results_not_diverges [of ms "[]"] Inr r ms show ?thesis
      by (cases "snd (mp_search_results ms [])") (simp_all add: mp_search_def io_simps Let_def)
  qed
qed

lemma mp_search_not_throws:
  "encodeURIComponent query = Inr q \<Longrightarrow> snd (mp_search fetch query) \<noteq> Throws e"
  by (auto simp: mp_search_def io_simps Let_def split: outcome.splits sum.splits option.splits)

lemma comprehensive_binds:
  assumes "extractAll html comprehensiveItemRegex = Some ms" and "m \<in> set ms"
  shows "(\<exists>u. at m 2 = Some u) \<and> (\<exists>t. at m 3 = Some t) \<and> (\<exists>t. at m 4 = Some t)"
proof -
  note b = binds_patterns(7)
  from extractAll_binds [OF patterns_advance(1) b [THEN conjunct1], of html]
    extractAll_binds [OF patterns_advance(1) b [THEN conjunct2, THEN conjunct1], of html]
    extractAll_binds [OF patterns_advance(1) b [THEN conjunct2, THEN conjunct2], of html]
    assms
  show ?thesis by auto
qed

lemma to_string_0: "to_string 0 = js ''0''"
  by (simp add: to_string.simps js_def)

definition rejecting_fetch :: fetch where
  "rejecting_fetch u opts = Inl (TypeError (js ''Failed to fetch''))"

definition not_found_fetch :: fetch where
  "not_found_fetch u opts =
     Inr \<lparr>ok = False, status = 404, statusText = js ''Not Found'', url = u, content = []\<rparr>"

definition empty_fetch :: fetch where
  "empty_fetch u opts =
     Inr \<lparr>ok = True, status = 200, statusText = js ''OK'', url = u, content = []\<rparr>"

lemma encode_m: "encodeURIComponent (js ''m'') = Inr (js ''m'')"
  by (simp add: eval_simps)

lemma to_string_404: "to_string 404 = js ''404''"
  by (simp add: to_string.simps js_def)






text \<open>
  A transport for the round trip: the listing for every request but the one for
  \<open>/mp.html\<close>, which is answered with 404. \<open>search\<close> reads the transport at the search
  URL only.
\<close>

definition round_trip_fetch :: fetch where
  "round_trip_fetch u opts =
     (if u = js ''https://readnovelfull.com/mp.html''
      then Inr \<lparr>ok = False, status = 404, statusText = js ''Not Found'', url = u, content = []\<rparr>
      else example_fetch u opts)"

lemma search_fetch_cong:
  assumes "encodeURIComponent query = Inr q"
    and "fetch (BASE_URL @ js ''/novel-list/search?keyword='' @ q) []
           = fetch' (BASE_URL @ js ''/novel-list/search?keyword='' @ q) []"
  shows "search fetch query = search fetch' query"
  using assms by (simp add: search_def Let_def await_fetch_def)

text \<open>
  The URL of \<open>search\<close> is built before the \<open>try\<close> block (ReadFullNovelV2.js 66, part 001
  61): what \<open>encodeURIComponent\<close> raises is raised by \<open>search\<close>, with no request made
  and nothing on the console.
\<close>

lemma search_malformed_query:
  assumes "encodeURIComponent query = Inl e"
  shows "search fetch query = ([], Throws e)" and "mp_search fetch query = ([], Throws e)"
  using assms by (simp_all add: search_def mp_search_def throw_def)




section \<open>The claims\<close>

text \<open>
  C5 (corrected). The loop of \<open>extractAll\<close> has no guard against a match that does not
  move \<open>lastIndex\<close>: on the pattern \<open>/a*/g\<close> and the document \<open>b\<close> the first match is
  empty at index 0, \<open>exec\<close> answers the same match again and again, and the loop never
  returns.
\<close>

theorem extractAll_zero_width_diverges:
  "extractAll (js ''b'') (re [Star (Atom (Lit 0x61))] ''g'') = None"
  unfolding extractAll_def
  by (rule extractAll_loop_stuck [where m = "[Some []]"])
     (simp add: exec_def re_def seqs_def js_def rmatch.simps mk_match_def)

text \<open>
  C5, as amended: for every document and every pattern with the flag \<open>g\<close> that cannot
  match the empty string, \<open>extractAll\<close> (in each of the modules) returns, and what it
  returns are the match arrays of the matches in document order: each match is not
  empty, lies in the document, starts no earlier than the match before it ends, and
  its array holds the matched text at index 0.
\<close>

theorem extractAll_document_order:
  assumes "global (rflags regex)" and "0 < min_len (pattern regex)"
  shows "extractAll html regex =
           Some (map (\<lambda>(j, m, e). m) (document_matches (rflags regex) (pattern regex) 0 html))
         \<and> rwn_extractAll html regex =
             Some (map (\<lambda>(j, m, e). m) (document_matches (rflags regex) (pattern regex) 0 html))
         \<and> sorted_wrt (\<lambda>(j, m, e) (j', m', e'). e \<le> j')
              (document_matches (rflags regex) (pattern regex) 0 html)
         \<and> (\<forall>(j, m, e) \<in> set (document_matches (rflags regex) (pattern regex) 0 html).
               j < e \<and> e \<le> length html \<and> at m 0 = Some (take (e - j) (drop j html)))"
proof -
  let ?ms = "document_matches (rflags regex) (pattern regex) 0 html"
  have a: "extractAll html regex = Some (map (\<lambda>(j, m, e). m) ?ms)"
    using extractAll_loop_document_matches [OF assms, of 0 html "[]"]
    by (simp add: extractAll_def)
  have "document_matches (rflags regex) (pattern regex) 0 [] = []"
    by (subst document_matches.simps)
       (simp add: find_match_empty [OF assms(2)] del: find_match.simps)
  with a have b: "rwn_extractAll html regex = Some (map (\<lambda>(j, m, e). m) ?ms)"
    by (simp add: rwn_extractAll_def extractAll_def)
  from document_matches_ordered [OF assms(2), of "rflags regex" 0 html]
  have c: "sorted_wrt (\<lambda>(j, m, e) (j', m', e'). e \<le> j') ?ms"
    and d: "\<forall>(j, m, e) \<in> set ?ms. j < e \<and> e \<le> length html
               \<and> at m 0 = Some (take (e - j) (drop j html))"
    by auto
  from a b c d show ?thesis by blast
qed

theorem extractAll_document_order_witness:
  "global (rflags genreRegex) \<and> 0 < min_len (pattern genreRegex)
   \<and> extractAll (js ''<a>x</a><a>y</a>'') genreRegex =
       Some [[Some (js ''<a>x</a>''), Some (js ''x'')], [Some (js ''<a>y</a>''), Some (js ''y'')]]"
  using extractAll_document_order [of genreRegex "js ''<a>x</a><a>y</a>''"]
  by (simp add: genreRegex_def re_def seqs_def lits_def Plus_def js_def
      document_matches.simps rmatch.simps(5,6) mk_match_def canon_def)


text \<open>
  C1 (code bug). In ReadFullNovelV2.js the identifier that \<open>search\<close> hands out does not
  always suffice to request the entity again. \<open>search\<close> returns the identifier \<open>mp\<close>;
  the site answers 404 for \<open>/mp.html\<close> and serves the page at \<open>/mp\<close>, the alternate URL
  that \<open>getBookDetails\<close> requests next; and \<open>getBookDetails\<close> called with \<open>mp\<close> returns no
  details: it fails with the TypeError of the assignment to the constant \<open>response\<close>.
\<close>

theorem round_trip_breaks:
  "snd (search round_trip_fetch (js ''m'')) =
     Returns [\<lparr>sr_id = js ''mp'', sr_title = js ''T'', sr_author = js ''A'',
               sr_coverUrl = js ''https://readnovelfull.com/c.jpg'', sr_description = js ''D''\<rparr>]
   \<and> round_trip_fetch (js ''https://readnovelfull.com/mp'') [] =
       Inr \<lparr>ok = True, status = 200, statusText = js ''OK'',
            url = js ''https://readnovelfull.com/mp'', content = example_listing\<rparr>
   \<and> getBookDetails round_trip_fetch (js ''mp'') =
       ([(Log, [Txt (js ''Fetching details for: https://readnovelfull.com/mp.html'')]),
         (Log, [Txt (js ''Retrying details fetch without .html: https://readnovelfull.com/mp'')]),
         (Err, [Txt (js ''Get Book Details Error for ID mp:''),
                Obj (TypeError (js ''Assignment to constant variable.''))])],
        Throws (Error (js ''Failed to get details for mp: Assignment to constant variable.'')))"
proof -
  have "round_trip_fetch (BASE_URL @ js ''/novel-list/search?keyword='' @ js ''m'') []
          = example_fetch (BASE_URL @ js ''/novel-list/search?keyword='' @ js ''m'') []"
    by (simp add: round_trip_fetch_def BASE_URL_def js_def)
  from search_fetch_cong [where fetch = round_trip_fetch and fetch' = example_fetch, OF encode_m this]
    example_search
  have a: "snd (search round_trip_fetch (js ''m'')) =
     Returns [\<lparr>sr_id = js ''mp'', sr_title = js ''T'', sr_author = js ''A'',
               sr_coverUrl = js ''https://readnovelfull.com/c.jpg'', sr_description = js ''D''\<rparr>]"
    by simp
  have b: "round_trip_fetch (js ''https://readnovelfull.com/mp'') [] =
       Inr \<lparr>ok = True, status = 200, statusText = js ''OK'',
            url = js ''https://readnovelfull.com/mp'', content = example_listing\<rparr>"
    by (simp add: round_trip_fetch_def example_fetch_def js_def)
  have c: "getBookDetails round_trip_fetch (js ''mp'') =
       ([(Log, [Txt (js ''Fetching details for: https://readnovelfull.com/mp.html'')]),
         (Log, [Txt (js ''Retrying details fetch without .html: https://readnovelfull.com/mp'')]),
         (Err, [Txt (js ''Get Book Details Error for ID mp:''),
                Obj (TypeError (js ''Assignment to constant variable.''))])],
        Throws (Error (js ''Failed to get details for mp: Assignment to constant variable.'')))"
    by (simp add: getBookDetails_def details_response_def bind_io_def try_catch_def
      await_fetch_def console_log_def console_error_def throw_def return_def
      Let_def round_trip_fetch_def example_fetch_def BASE_URL_def js_def)
  from a b c show ?thesis by (intro conjI)
qed

text \<open>
  Where the page of the identifier is delivered at the first URL requested,
  \<open>getBookDetails\<close> returns details that carry the identifier it was called with: in
  ReadFullNovelV2.js when \<open>/id.html\<close> answers ok and no request is rejected, in the
  module for mangapill.com when the page of the identifier answers ok.
\<close>

lemma identifier_round_trip:
  "(snd (search fetch query) = Returns results \<and> r \<in> set results
      \<and> fetch (BASE_URL @ js ''/'' @ sr_id r @ js ''.html'') [] = Inr response \<and> ok response
      \<and> (\<forall>u opts e. fetch u opts \<noteq> Inl e)
    \<longrightarrow> (\<exists>details. snd (getBookDetails fetch (sr_id r)) = Returns details
                    \<and> bd_id details = sr_id r))
   \<and> (snd (mp_search fetch query) = Returns mp_results \<and> mr \<in> set mp_results
        \<and> fetch (baseURL @ mr_id mr) mp_options = Inr response \<and> ok response
      \<longrightarrow> (\<exists>details. snd (mp_getBookDetails fetch (mr_id mr)) = Returns details
                      \<and> md_id details = mr_id mr))"
proof (intro conjI impI)
  assume "snd (search fetch query) = Returns results \<and> r \<in> set results
      \<and> fetch (BASE_URL @ js ''/'' @ sr_id r @ js ''.html'') [] = Inr response \<and> ok response
      \<and> (\<forall>u opts e. fetch u opts \<noteq> Inl e)"
  then have "fetch (BASE_URL @ js ''/'' @ sr_id r @ js ''.html'') [] = Inr response" "ok response"
    "\<forall>u opts e. fetch u opts \<noteq> Inl e" by simp_all
  from getBookDetails_returns [OF this] obtain details where
    d: "snd (getBookDetails fetch (sr_id r)) = Returns details" by blast
  from getBookDetails_id [OF d] d
  show "\<exists>details. snd (getBookDetails fetch (sr_id r)) = Returns details \<and> bd_id details = sr_id r"
    by blast
next
  assume "snd (mp_search fetch query) = Returns mp_results \<and> mr \<in> set mp_results
        \<and> fetch (baseURL @ mr_id mr) mp_options = Inr response \<and> ok response"
  then have "fetch (baseURL @ mr_id mr) mp_options = Inr response" "ok response" by simp_all
  from mp_getBookDetails_returns [of fetch "mr_id mr" response, OF this]
  show "\<exists>details. snd (mp_getBookDetails fetch (mr_id mr)) = Returns details
                      \<and> md_id details = mr_id mr"
    by force
qed

lemma identifier_round_trip_witness:
  "(\<exists>r. snd (search example_fetch (js ''m'')) = Returns [r] \<and> sr_id r = js ''mp''
        \<and> (\<exists>details. snd (getBookDetails example_fetch (sr_id r)) = Returns details
                       \<and> bd_id details = js ''mp''))
   \<and> (\<exists>mr. snd (mp_search mp_example_fetch (js ''x'')) = Returns [mr] \<and> mr_id mr = js ''/manga/1/x''
        \<and> (\<exists>details. snd (mp_getBookDetails mp_example_fetch (mr_id mr)) = Returns details
                       \<and> md_id details = js ''/manga/1/x''))"
proof -
  let ?r = "\<lparr>sr_id = js ''mp'', sr_title = js ''T'', sr_author = js ''A'',
               sr_coverUrl = js ''https://readnovelfull.com/c.jpg'', sr_description = js ''D''\<rparr>"
  let ?mr = "\<lparr>mr_id = js ''/manga/1/x'', mr_title = js ''X'', mr_author = [],
               mr_coverUrl = Some (js ''/c.jpg''), mr_description = []\<rparr>"
  have a: "\<exists>details. snd (getBookDetails example_fetch (sr_id ?r)) = Returns details
                       \<and> bd_id details = sr_id ?r"
    using identifier_round_trip [where fetch = example_fetch and query = "js ''m''"
        and results = "[?r]" and r = ?r and response =
        "\<lparr>ok = True, status = 200, statusText = js ''OK'',
          url = BASE_URL @ js ''/'' @ sr_id ?r @ js ''.html'', content = example_listing\<rparr>"]
      example_search
    by (simp add: example_fetch_def)
  have b: "\<exists>details. snd (mp_getBookDetails mp_example_fetch (mr_id ?mr)) = Returns details
                       \<and> md_id details = mr_id ?mr"
    using identifier_round_trip [where fetch = mp_example_fetch and query = "js ''x''"
        and mp_results = "[?mr]" and mr = ?mr and response =
        "\<lparr>ok = True, status = 200, statusText = js ''OK'',
          url = baseURL @ mr_id ?mr, content = mp_example_listing\<rparr>"]
      mp_example_search
    by (simp add: mp_example_fetch_def)
  from a b example_search mp_example_search show ?thesis by simp
qed

text \<open>
  C6 (code bug). In \<open>getBookDetails\<close> of ReadFullNovelV2.js the first response is not ok
  (404 for \<open>/x.html\<close>) and the alternate URL \<open>/x\<close> answers 200 with a page: the retry is
  issued, and the operation still fails, with the TypeError of the assignment to the
  constant \<open>response\<close>. (\<open>getContent\<close>, which declares \<open>response\<close> with \<open>let\<close>, returns the
  text of the page from the same transport: \<open>getContent_retry_returns\<close>.)
\<close>

theorem getBookDetails_retry_throws:
  "getBookDetails retry_fetch (js ''x'') =
     ([(Log, [Txt (js ''Fetching details for: https://readnovelfull.com/x.html'')]),
       (Log, [Txt (js ''Retrying details fetch without .html: https://readnovelfull.com/x'')]),
       (Err, [Txt (js ''Get Book Details Error for ID x:''),
              Obj (TypeError (js ''Assignment to constant variable.''))])],
      Throws (Error (js ''Failed to get details for x: Assignment to constant variable.'')))"
  by (simp add: getBookDetails_def details_response_def bind_io_def try_catch_def
      await_fetch_def console_log_def console_error_def throw_def return_def
      Let_def retry_fetch_def BASE_URL_def js_def)





text \<open>
  C8 (corrected). \<open>search\<close> raises for a query that holds a surrogate without its
  partner: \<open>encodeURIComponent\<close> raises a URIError where the URL is built, before the
  \<open>try\<close> block, and \<open>search\<close> propagates it, whatever the transport would have answered;
  in ReadFullNovelV2.js and in the module for mangapill.com.
\<close>

theorem search_raises_on_lone_surrogate:
  "search empty_fetch [0xD800] = ([], Throws (URIError (js ''URI malformed'')))
   \<and> mp_search empty_fetch [0xD800] = ([], Throws (URIError (js ''URI malformed'')))"
proof -
  have "encodeURIComponent [0xD800] = Inl (URIError (js ''URI malformed''))"
    by (simp add: uri_unreserved_def js_def)
  from search_malformed_query [OF this] show ?thesis by (intro conjI)
qed

text \<open>
  C8, as amended: for every query that \<open>encodeURIComponent\<close> accepts (one without an
  unpaired surrogate) \<open>search\<close> returns and never raises; when the fetch is rejected,
  when the response is not ok, and when the document yields no result block with a
  title, it returns the empty sequence and the console holds the report of it.
\<close>

theorem search_never_raises:
  assumes "encodeURIComponent query = Inr q"
  shows
    "(\<exists>results. snd (search fetch query) = Returns results)
     \<and> (\<forall>e. fetch (BASE_URL @ js ''/novel-list/search?keyword='' @ q) [] = Inl e \<longrightarrow>
           search fetch query =
             ([(Log, [Txt (js ''ReadNovelFull Searching: '' @ BASE_URL
                           @ js ''/novel-list/search?keyword='' @ q)]),
               (Err, [Txt (js ''ReadNovelFull Search Error:''), Obj e])], Returns []))
     \<and> (\<forall>r. fetch (BASE_URL @ js ''/novel-list/search?keyword='' @ q) [] = Inr r \<and> \<not> ok r \<longrightarrow>
           search fetch query =
             ([(Log, [Txt (js ''ReadNovelFull Searching: '' @ BASE_URL
                           @ js ''/novel-list/search?keyword='' @ q)]),
               (Err, [Txt (js ''Search failed: '' @ to_string (status r) @ js '' ''
                           @ statusText r)])], Returns []))
     \<and> (\<forall>r ms. fetch (BASE_URL @ js ''/novel-list/search?keyword='' @ q) [] = Inr r \<and> ok r
           \<and> extractAll (content r) comprehensiveItemRegex = Some ms
           \<and> (\<forall>m \<in> set ms. \<forall>t. at m 3 = Some t \<longrightarrow> decodeEntities (trim t) = []) \<longrightarrow>
           search fetch query =
             ([(Log, [Txt (js ''ReadNovelFull Searching: '' @ BASE_URL
                           @ js ''/novel-list/search?keyword='' @ q)]),
               (Log, [Txt (js ''Found '' @ to_string (length ms)
                           @ js '' potential search results.'')]),
               (Log, [Txt (js ''Parsed 0 valid results.'')])], Returns []))
     \<and> (\<exists>results. snd (mp_search fetch query) = Returns results)
     \<and> (\<forall>e. fetch (baseURL @ js ''/search?q='' @ q) mp_options = Inl e \<longrightarrow>
           mp_search fetch query =
             ([(Log, [Txt (js ''Searching MangaPill: '' @ baseURL @ js ''/search?q='' @ q)]),
               (Err, [Txt (js ''MangaPill Search Error:''), Obj e])], Returns []))
     \<and> (\<forall>r. fetch (baseURL @ js ''/search?q='' @ q) mp_options = Inr r \<and> \<not> ok r \<longrightarrow>
           mp_search fetch query =
             ([(Log, [Txt (js ''Searching MangaPill: '' @ baseURL @ js ''/search?q='' @ q)]),
               (Err, [Txt (js ''Search failed: '' @ to_string (status r) @ js '' ''
                           @ statusText r)])], Returns []))
     \<and> (\<forall>r. fetch (baseURL @ js ''/search?q='' @ q) mp_options = Inr r \<and> ok r
           \<and> extractAll (content r) itemRegex = Some [] \<longrightarrow>
           mp_search fetch query =
             ([(Log, [Txt (js ''Searching MangaPill: '' @ baseURL @ js ''/search?q='' @ q)]),
               (Log, [Txt (js ''Found 0 potential search results.'')]),
               (Log, [Txt (js ''Parsed 0 valid results.'')])], Returns []))"
proof (intro conjI allI impI)
  from search_never_diverges [of fetch query] search_not_throws [OF assms, of fetch]
  show "\<exists>results. snd (search fetch query) = Returns results"
    by (cases "snd (search fetch query)") auto
next
  from mp_search_never_diverges [of fetch query] mp_search_not_throws [OF assms, of fetch]
  show "\<exists>results. snd (mp_search fetch query) = Returns results"
    by (cases "snd (mp_search fetch query)") auto
next
  fix e assume "fetch (BASE_URL @ js ''/novel-list/search?keyword='' @ q) [] = Inl e"
  with assms show "search fetch query =
             ([(Log, [Txt (js ''ReadNovelFull Searching: '' @ BASE_URL
                           @ js ''/novel-list/search?keyword='' @ q)]),
               (Err, [Txt (js ''ReadNovelFull Search Error:''), Obj e])], Returns [])"
    by (simp add: search_def Let_def bind_io_def try_catch_def await_fetch_def console_log_def
        console_error_def throw_def return_def)
next
  fix r assume "fetch (BASE_URL @ js ''/novel-list/search?keyword='' @ q) [] = Inr r \<and> \<not> ok r"
  with assms show "search fetch query =
             ([(Log, [Txt (js ''ReadNovelFull Searching: '' @ BASE_URL
                           @ js ''/novel-list/search?keyword='' @ q)]),
               (Err, [Txt (js ''Search failed: '' @ to_string (status r) @ js '' ''
                           @ statusText r)])], Returns [])"
    by (simp add: search_def Let_def bind_io_def try_catch_def await_fetch_def console_log_def
        console_error_def throw_def return_def)
next
  fix r ms
  assume h: "fetch (BASE_URL @ js ''/novel-list/search?keyword='' @ q) [] = Inr r \<and> ok r
           \<and> extractAll (content r) comprehensiveItemRegex = Some ms
           \<and> (\<forall>m \<in> set ms. \<forall>t. at m 3 = Some t \<longrightarrow> decodeEntities (trim t) = [])"
  then have ms: "extractAll (content r) comprehensiveItemRegex = Some ms" by simp
  from h comprehensive_binds [OF ms]
  have "\<forall>m \<in> set ms. (\<exists>u. at m 2 = Some u) \<and> (\<exists>t. at m 4 = Some t)
             \<and> (\<exists>t. at m 3 = Some t \<and> decodeEntities (trim t) = [])"
    by fastforce
  from search_results_none [OF this, of "[]"] h assms
  show "search fetch query =
             ([(Log, [Txt (js ''ReadNovelFull Searching: '' @ BASE_URL
                           @ js ''/novel-list/search?keyword='' @ q)]),
               (Log, [Txt (js ''Found '' @ to_string (length ms)
                           @ js '' potential search results.'')]),
               (Log, [Txt (js ''Parsed 0 valid results.'')])], Returns [])"
    by (simp add: search_def Let_def bind_io_def try_catch_def await_fetch_def console_log_def
        console_error_def throw_def return_def await_loop_def to_string_0 js_def)
next
  fix e assume "fetch (baseURL @ js ''/search?q='' @ q) mp_options = Inl e"
  with assms show "mp_search fetch query =
             ([(Log, [Txt (js ''Searching MangaPill: '' @ baseURL @ js ''/search?q='' @ q)]),
               (Err, [Txt (js ''MangaPill Search Error:''), Obj e])], Returns [])"
    by (simp add: mp_search_def Let_def bind_io_def try_catch_def await_fetch_def console_log_def
        console_error_def throw_def return_def)
next
  fix r assume "fetch (baseURL @ js ''/search?q='' @ q) mp_options = Inr r \<and> \<not> ok r"
  with assms show "mp_search fetch query =
             ([(Log, [Txt (js ''Searching MangaPill: '' @ baseURL @ js ''/search?q='' @ q)]),
               (Err, [Txt (js ''Search failed: '' @ to_string (status r) @ js '' ''
                           @ statusText r)])], Returns [])"
    by (simp add: mp_search_def Let_def bind_io_def try_catch_def await_fetch_def console_log_def
        console_error_def throw_def return_def)
next
  fix r assume "fetch (baseURL @ js ''/search?q='' @ q) mp_options = Inr r \<and> ok r
           \<and> extractAll (content r) itemRegex = Some []"
  with assms show "mp_search fetch query =
             ([(Log, [Txt (js ''Searching MangaPill: '' @ baseURL @ js ''/search?q='' @ q)]),
               (Log, [Txt (js ''Found 0 potential search results.'')]),
               (Log, [Txt (js ''Parsed 0 valid results.'')])], Returns [])"
    by (simp add: mp_search_def Let_def bind_io_def try_catch_def await_fetch_def console_log_def
        console_error_def throw_def return_def await_loop_def to_string_0 js_def)
qed

theorem search_never_raises_witness:
  "encodeURIComponent (js ''m'') = Inr (js ''m'')
   \<and> search rejecting_fetch (js ''m'') =
       ([(Log, [Txt (js ''ReadNovelFull Searching: https://readnovelfull.com/novel-list/search?keyword=m'')]),
         (Err, [Txt (js ''ReadNovelFull Search Error:''), Obj (TypeError (js ''Failed to fetch''))])],
        Returns [])
   \<and> search not_found_fetch (js ''m'') =
       ([(Log, [Txt (js ''ReadNovelFull Searching: https://readnovelfull.com/novel-list/search?keyword=m'')]),
         (Err, [Txt (js ''Search failed: 404 Not Found'')])],
        Returns [])
   \<and> search empty_fetch (js ''m'') =
       ([(Log, [Txt (js ''ReadNovelFull Searching: https://readnovelfull.com/novel-list/search?keyword=m'')]),
         (Log, [Txt (js ''Found 0 potential search results.'')]),
         (Log, [Txt (js ''Parsed 0 valid results.'')])],
        Returns [])
   \<and> mp_search not_found_fetch (js ''m'') =
       ([(Log, [Txt (js ''Searching MangaPill: https://mangapill.com/search?q=m'')]),
         (Err, [Txt (js ''Search failed: 404 Not Found'')])],
        Returns [])"
proof -
  note t = search_never_raises [OF encode_m]
  have a: "search rejecting_fetch (js ''m'') =
       ([(Log, [Txt (js ''ReadNovelFull Searching: https://readnovelfull.com/novel-list/search?keyword=m'')]),
         (Err, [Txt (js ''ReadNovelFull Search Error:''), Obj (TypeError (js ''Failed to fetch''))])],
        Returns [])"
    using t [of rejecting_fetch, THEN conjunct2, THEN conjunct1]
    by (simp add: rejecting_fetch_def BASE_URL_def js_def)
  have b: "search not_found_fetch (js ''m'') =
       ([(Log, [Txt (js ''ReadNovelFull Searching: https://readnovelfull.com/novel-list/search?keyword=m'')]),
         (Err, [Txt (js ''Search failed: 404 Not Found'')])],
        Returns [])"
    using t [of not_found_fetch, THEN conjunct2, THEN conjunct2, THEN conjunct1] to_string_404
    by (simp add: not_found_fetch_def BASE_URL_def js_def)
  have e: "extractAll [] comprehensiveItemRegex = Some []"
    by (subst extractAll_eval [OF patterns_advance(1)])
       (simp add: document_matches.simps find_match_empty patterns_advance(1) del: find_match.simps)
  have c: "search empty_fetch (js ''m'') =
       ([(Log, [Txt (js ''ReadNovelFull Searching: https://readnovelfull.com/novel-list/search?keyword=m'')]),
         (Log, [Txt (js ''Found 0 potential search results.'')]),
         (Log, [Txt (js ''Parsed 0 valid results.'')])],
        Returns [])"
    using t [of empty_fetch, THEN conjunct2, THEN conjunct2, THEN conjunct2, THEN conjunct1] e
      to_string_0
    by (simp add: empty_fetch_def BASE_URL_def js_def)
  have d: "mp_search not_found_fetch (js ''m'') =
       ([(Log, [Txt (js ''Searching MangaPill: https://mangapill.com/search?q=m'')]),
         (Err, [Txt (js ''Search failed: 404 Not Found'')])],
        Returns [])"
    using t [of not_found_fetch, THEN conjunct2, THEN conjunct2, THEN conjunct2, THEN conjunct2,
        THEN conjunct2, THEN conjunct2, THEN conjunct1] to_string_404
    by (simp add: not_found_fetch_def baseURL_def js_def)
  from encode_m a b c d show ?thesis by simp
qed






section \<open>Replacement over a string\<close>

text \<open>
  How \<open>replace\<close> walks a string: where the pattern does not match, the code unit is
  kept and the search moves on; where it matches, the replacement is written and the
  search resumes at the end of the match.
\<close>

lemma rmatch_suffix:
  "(caps', s') \<in> set (rmatch fl r (caps, s)) \<Longrightarrow> \<exists>p. s = p @ s'"
proof (induction fl r "(caps, s)" arbitrary: caps s caps' s' rule: rmatch.induct)
  case (1 fl caps s)
  then show ?case by simp
next
  case (2 fl a caps s)
  then show ?case by (cases s) (auto split: if_splits)
next
  case (3 fl r1 r2 caps s)
  from "3.prems" obtain c1 s1 where m: "(c1, s1) \<in> set (rmatch fl r1 (caps, s))"
    and s: "(caps', s') \<in> set (rmatch fl r2 (c1, s1))"
    by (rule rmatch_Seq_cases)
  from "3.hyps"(1) [OF m] "3.hyps"(2) [OF m s] show ?case by auto
next
  case (4 fl r1 r2 caps s)
  from "4.prems" have "(caps', s') \<in> set (rmatch fl r1 (caps, s))
      \<or> (caps', s') \<in> set (rmatch fl r2 (caps, s))"
    by simp
  with "4.hyps" show ?case by blast
next
  case (5 fl r caps s)
  from "5.prems" show ?case
  proof (cases rule: rmatch_Star_cases)
    case 1
    then show ?thesis by simp
  next
    case (2 c1 s1)
    from "5.hyps"(1) [OF 2(1)] "5.hyps"(2) [OF 2(1) refl 2(2) 2(3)] show ?thesis by auto
  qed
next
  case (6 fl r caps s)
  from "6.prems" show ?case
  proof (cases rule: rmatch_LazyStar_cases)
    case 1
    then show ?thesis by simp
  next
    case (2 c1 s1)
    from "6.hyps"(1) [OF 2(1)] "6.hyps"(2) [OF 2(1) refl 2(2) 2(3)] show ?thesis by auto
  qed
next
  case (7 fl n r caps s)
  from "7.prems" obtain c1 where "(c1, s') \<in> set (rmatch fl r (caps, s))" by auto
  from "7.hyps" [OF this] show ?case .
next
  case (8 fl caps s)
  from "8.prems" show ?case by (auto split: if_splits)
qed

lemma find_match_shift:
  "find_match fl r i s = map_option (\<lambda>(j, m, e). (j + i, m, e + i)) (find_match fl r 0 s)"
proof (induction s arbitrary: i)
  case Nil
  then show ?case by (auto split: list.splits)
next
  case (Cons c t)
  show ?case
  proof (cases "rmatch fl r ([], c # t)")
    case Nil
    with Cons [of "Suc i"] Cons [of "Suc 0"] show ?thesis
      by (cases "find_match fl r 0 t") auto
  next
    case (Cons st rest)
    then show ?thesis by (cases st) (simp add: Let_def)
  qed
qed

lemma replace_loop_no_match:
  assumes "rmatch fl r ([], c # t) = []"
  shows "replace_loop fl r f (c # t) = c # replace_loop fl r f t"
proof (cases "find_match fl r 0 t")
  case None
  with assms find_match_shift [of fl r "Suc 0" t] show ?thesis
    by (simp add: replace_loop.simps [of _ _ _ "c # t"] replace_loop.simps [of _ _ _ t])
next
  case (Some a)
  obtain j m e where a: "a = (j, m, e)" by (cases a)
  from find_match_bounds [of fl r 0 t j m e] Some a have "j \<le> e" by simp
  with Some a assms find_match_shift [of fl r "Suc 0" t] show ?thesis
    by (simp add: replace_loop.simps [of _ _ _ "c # t"] replace_loop.simps [of _ _ _ t])
qed

lemma replace_loop_match:
  assumes "rmatch fl r ([], s) = (caps, s') # rest" and "length s' < length s"
  shows "replace_loop fl r f s =
           f (mk_match r (take (length s - length s') s) caps) @ replace_loop fl r f s'"
proof -
  let ?n = "length s - length s'"
  from assms(1) have "(caps, s') \<in> set (rmatch fl r ([], s))" by simp
  from rmatch_suffix [OF this] obtain p where p: "s = p @ s'" by blast
  then have d: "drop ?n s = s'" by simp
  from assms(2) have n: "?n \<noteq> 0" by simp
  from assms obtain c t where s: "s = c # t" by (cases s) auto
  with assms(1) have "find_match fl r 0 s = Some (0, mk_match r (take ?n s) caps, ?n)"
    by (simp add: Let_def)
  then have "replace_loop fl r f s =
      take 0 s @ f (mk_match r (take ?n s) caps) @ replace_loop fl r f (drop ?n s)"
    using n by (subst replace_loop.simps) simp
  with d show ?thesis by simp
qed

lemma replace_loop_Nil:
  "rmatch fl r ([], []) = [] \<Longrightarrow> replace_loop fl r f [] = []"
  by (simp add: replace_loop.simps)

text \<open>
  The atom a pattern has to read first, when it has one. A string without a code
  unit for that atom is left as it is.
\<close>

fun first_atom :: "regex \<Rightarrow> atom option" where
  "first_atom (Atom a) = Some a"
| "first_atom (Seq r1 r2) = first_atom r1"
| "first_atom (Group n r) = first_atom r"
| "first_atom r = None"

lemma first_atom_Nil:
  "first_atom r = Some a \<Longrightarrow> rmatch fl r (caps, []) = []"
  by (induction r arbitrary: caps) simp_all

lemma first_atom_mismatch:
  "first_atom r = Some a \<Longrightarrow> \<not> atom_match fl a c \<Longrightarrow> rmatch fl r (caps, c # t) = []"
  by (induction r arbitrary: caps) simp_all

lemma replace_loop_absent:
  assumes "first_atom r = Some a" and "\<forall>c \<in> set s. \<not> atom_match fl a c"
  shows "replace_loop fl r f s = s"
  using assms(2)
proof (induction s)
  case Nil
  from first_atom_Nil [OF assms(1)] show ?case by (simp add: replace_loop_Nil)
next
  case (Cons c t)
  then have "\<not> atom_match fl a c" by simp
  from first_atom_mismatch [OF assms(1) this] Cons show ?case
    by (simp add: replace_loop_no_match)
qed

lemma canon_lt [simp]: "canon c = 0x3C \<longleftrightarrow> c = 0x3C"
  by (auto simp: canon_def diff_eq_eq)

lemma canon_amp [simp]: "canon c = 0x26 \<longleftrightarrow> c = 0x26"
  by (auto simp: canon_def diff_eq_eq)

lemma canon_consts [simp]: "canon 0x3C = 0x3C" "canon 0x26 = 0x26"
  by (simp_all add: canon_def)

lemma first_atoms:
  "first_atom (pattern br_re) = Some (Lit 0x3C)"
  "first_atom (pattern tag_re) = Some (Lit 0x3C)"
  "first_atom (pattern script_re) = Some (Lit 0x3C)"
  "first_atom (pattern style_re) = Some (Lit 0x3C)"
  "first_atom (pattern p_re) = Some (Lit 0x3C)"
  "first_atom (pattern translate_re) = Some (Lit 0x26)"
  "first_atom (pattern rwn_translate_re) = Some (Lit 0x26)"
  "first_atom (pattern numeric_re) = Some (Lit 0x26)"
  "first_atom (pattern hex_re) = Some (Lit 0x26)"
  by (simp_all add: br_re_def tag_re_def script_re_def style_re_def p_re_def translate_re_def
      rwn_translate_re_def numeric_re_def hex_re_def re_def seqs_def lits_def)

lemma replace_no_lt:
  assumes "first_atom (pattern regex) = Some (Lit 0x3C)" and "0x3C \<notin> set s"
  shows "replace s regex f = s"
  unfolding replace_def
  by (rule replace_loop_absent [OF assms(1)]) (use assms(2) in auto)

lemma replace_no_amp:
  assumes "first_atom (pattern regex) = Some (Lit 0x26)" and "0x26 \<notin> set s"
  shows "replace s regex f = s"
  unfolding replace_def
  by (rule replace_loop_absent [OF assms(1)]) (use assms(2) in auto)

lemma decodeEntities_no_amp:
  assumes "0x26 \<notin> set s"
  shows "decodeEntities s = s" and "rwn_decodeEntities s = s" and "mp0_decodeEntities s = s"
  using assms
  by (simp_all add: decodeEntities_def rwn_decodeEntities_def mp0_decodeEntities_def
      replace_no_amp first_atoms Let_def)

lemma set_trim: "set (trim s) \<subseteq> set s"
proof -
  have "set (trim s) \<subseteq> set (dropWhile is_space s)"
    unfolding trim_def using set_dropWhileD by fastforce
  also have "\<dots> \<subseteq> set s" using set_dropWhileD by fastforce
  finally show ?thesis .
qed

lemma trim_idem: "trim (trim s) = trim s"
proof -
  let ?u = "dropWhile is_space s"
  let ?v = "rev (dropWhile is_space (rev ?u))"
  have v: "trim s = ?v" by (simp add: trim_def)
  have a: "dropWhile is_space ?v = ?v"
  proof (cases "?v = []")
    case True
    then show ?thesis by (metis dropWhile.simps(1))
  next
    case False
    then have "dropWhile is_space (rev ?u) \<noteq> []" by simp
    then obtain p where p: "rev ?u = p @ dropWhile is_space (rev ?u)" 
      by (metis takeWhile_dropWhile_id)
    then have "?u = ?v @ rev p" by (metis rev_append rev_rev_ident)
    with False have "hd ?v = hd ?u" by (metis hd_append2)
    moreover have "?u \<noteq> []"
    proof
      assume "?u = []"
      then have "?v = []" by (simp only: rev.simps dropWhile.simps)
      with False show False ..
    qed
    then have "\<not> is_space (hd ?u)" by (rule hd_dropWhile)
    ultimately have "\<not> is_space (hd ?v)" by simp
    with False show ?thesis by (cases ?v) auto
  qed
  have b: "dropWhile is_space (rev ?v) = rev ?v"
    by (simp add: dropWhile_idem)
  from a b show ?thesis unfolding v by (simp add: trim_def)
qed

lemma trim_Nil [simp]: "trim [] = []"
  by (simp add: trim_def)

lemma cleanHtmlText_no_markup:
  assumes "0x3C \<notin> set t" and "0x26 \<notin> set t"
  shows "cleanHtmlText t = trim t"
proof (cases "t = []")
  case True
  then show ?thesis by (simp add: cleanHtmlText_def)
next
  case False
  from set_trim [of t] assms have "0x26 \<notin> set (trim t)" by auto
  with False assms show ?thesis
    by (simp add: cleanHtmlText_def replace_no_lt first_atoms decodeEntities_no_amp)
qed

lemma cleanHtmlText_plain:
  assumes "0x3C \<notin> set t" and "0x26 \<notin> set t"
  shows "cleanHtmlText t = trim t" and "cleanHtmlText (cleanHtmlText t) = cleanHtmlText t"
proof -
  from set_trim [of t] assms have n: "0x3C \<notin> set (trim t)" "0x26 \<notin> set (trim t)" by auto
  show a: "cleanHtmlText t = trim t" by (rule cleanHtmlText_no_markup [OF assms])
  from cleanHtmlText_no_markup [OF n] a
  show "cleanHtmlText (cleanHtmlText t) = cleanHtmlText t" by (simp add: trim_idem)
qed


lemma lits_Cons: "lits (c # p) = Seq (Atom (Lit (of_char c))) (lits p)"
  by (simp add: lits_def)

lemma lits_Nil: "lits [] = Eps"
  by (simp add: lits_def)










section \<open>The steps of the cleaner\<close>

text \<open>
  Stated from the specification, to be compared with what the patterns of the source
  do: \<open>spec_collapse\<close> writes every run of three or more line breaks as exactly two,
  and \<open>has3\<close> says that a string holds three line breaks in a row.
\<close>

function spec_collapse :: "jsstring \<Rightarrow> jsstring" where
  "spec_collapse [] = []"
| "spec_collapse (c # s) =
     (if c = 0x0A \<and> take 2 s = [0x0A, 0x0A]
      then [0x0A, 0x0A] @ spec_collapse (dropWhile (\<lambda>x. x = 0x0A) s)
      else c # spec_collapse s)"
  by pat_completeness auto
termination
  by (relation "measure length") (auto simp: length_dropWhile_le less_Suc_eq_le)

fun has3 :: "jsstring \<Rightarrow> bool" where
  "has3 [] = False"
| "has3 (c # s) = ((c = 0x0A \<and> take 2 s = [0x0A, 0x0A]) \<or> has3 s)"

lemma rmatch_Star_Atom_head:
  "\<exists>rest. rmatch fl (Star (Atom a)) (caps, s) = (caps, dropWhile (atom_match fl a) s) # rest"
proof (induction s)
  case Nil
  show ?case by (simp add: rmatch.simps(5))
next
  case (Cons c t)
  show ?case
  proof (cases "atom_match fl a c")
    case True
    from Cons obtain rest where "rmatch fl (Star (Atom a)) (caps, t)
        = (caps, dropWhile (atom_match fl a) t) # rest" by blast
    with True show ?thesis by (simp add: rmatch.simps(5) [of _ _ _ "c # t"])
  next
    case False
    then show ?thesis by (simp add: rmatch.simps(5) [of _ _ _ "c # t"])
  qed
qed

abbreviation (input) newlines :: regex where
  "newlines \<equiv> pattern newlines_re"

lemma newlines_flags: "rflags newlines_re = \<lparr>global = True, ignoreCase = False, dotAll = False\<rparr>"
  by (simp add: newlines_re_def re_def)

lemma newlines_pattern:
  "pattern newlines_re =
     Seq (Seq (Atom (Lit 0x0A)) (Seq (Atom (Lit 0x0A)) (Seq (Atom (Lit 0x0A))
       (Star (Atom (Lit 0x0A)))))) Eps"
  by (simp add: newlines_re_def re_def seqs_def AtLeast3_def)

lemma newlines_match:
  assumes "c = 0x0A \<and> take 2 s = [0x0A, 0x0A]"
  shows "\<exists>rest. rmatch (rflags newlines_re) newlines ([], c # s)
           = ([], dropWhile (\<lambda>x. x = 0x0A) s) # rest"
proof -
  from assms obtain s3 where s: "s = 0x0A # 0x0A # s3" and c: "c = 0x0A"
    by (cases s; cases "tl s") auto
  let ?fl = "rflags newlines_re"
  from rmatch_Star_Atom_head [of ?fl "Lit 0x0A" "[]" s3] obtain rest where
    "rmatch ?fl (Star (Atom (Lit 0x0A))) ([], s3)
       = ([], dropWhile (atom_match ?fl (Lit 0x0A)) s3) # rest" by blast
  moreover have "atom_match ?fl (Lit 0x0A) = (\<lambda>x. x = 0x0A)"
    by (auto simp: newlines_flags)
  ultimately show ?thesis using s c by (simp add: newlines_pattern)
qed

lemma newlines_no_match:
  assumes "\<not> (c = 0x0A \<and> take 2 s = [0x0A, 0x0A])"
  shows "rmatch (rflags newlines_re) newlines ([], c # s) = []"
  using assms
  by (cases s; cases "tl s") (auto simp: newlines_pattern newlines_flags)

lemma newlines_Nil: "rmatch (rflags newlines_re) newlines ([], []) = []"
  by (simp add: newlines_pattern)

lemma replace_newlines:
  "replace s newlines_re (\<lambda>m. [0x0A, 0x0A]) = spec_collapse s"
  unfolding replace_def
proof (induction s rule: spec_collapse.induct)
  case 1
  show ?case by (simp add: replace_loop_Nil newlines_Nil)
next
  case (2 c s)
  show ?case
  proof (cases "c = 0x0A \<and> take 2 s = [0x0A, 0x0A]")
    case True
    from newlines_match [OF True] obtain rest where
      r: "rmatch (rflags newlines_re) newlines ([], c # s)
           = ([], dropWhile (\<lambda>x. x = 0x0A) s) # rest" by blast
    have "length (dropWhile (\<lambda>x. x = 0x0A) s) < length (c # s)"
      by (simp add: length_dropWhile_le less_Suc_eq_le)
    moreover from True have "spec_collapse (c # s) = [0x0A, 0x0A] @ spec_collapse (dropWhile (\<lambda>x. x = 0x0A) s)"
      by simp
    ultimately show ?thesis using replace_loop_match [OF r] 2(1) [OF True] by simp
  next
    case False
    from False have "spec_collapse (c # s) = c # spec_collapse s" by auto
    with replace_loop_no_match [OF newlines_no_match [OF False]] 2(2) [OF False]
    show ?thesis by simp
  qed
qed

lemma collapse_Nil_iff: "spec_collapse s = [] \<longleftrightarrow> s = []"
  by (cases s) auto

lemma hd_collapse: "s \<noteq> [] \<Longrightarrow> hd (spec_collapse s) = hd s"
  by (cases s) auto

lemma take2_collapse:
  assumes "take 2 (spec_collapse s) = [0x0A, 0x0A]"
  shows "take 2 s = [0x0A, 0x0A]"
proof (cases s)
  case Nil
  with assms show ?thesis by simp
next
  case (Cons c s')
  show ?thesis
  proof (cases "c = 0x0A \<and> take 2 s' = [0x0A, 0x0A]")
    case True
    with Cons show ?thesis by (cases s') auto
  next
    case False
    with assms Cons have c: "c = 0x0A" and t: "take 1 (spec_collapse s') = [0x0A]" by auto
    from t have "spec_collapse s' \<noteq> []" by auto
    then have n: "s' \<noteq> []" by (simp add: collapse_Nil_iff)
    from t have "hd (spec_collapse s') = 0x0A" by (cases "spec_collapse s'") auto
    with hd_collapse [OF n] have "hd s' = 0x0A" by simp
    with n c Cons show ?thesis by (cases s') auto
  qed
qed

lemma not_has3_collapse: "\<not> has3 (spec_collapse s)"
proof (induction s rule: spec_collapse.induct)
  case 1
  show ?case by simp
next
  case (2 c s)
  show ?case
  proof (cases "c = 0x0A \<and> take 2 s = [0x0A, 0x0A]")
    case True
    let ?s' = "dropWhile (\<lambda>x. x = 0x0A) s"
    have "take 1 (spec_collapse ?s') \<noteq> [0x0A]"
    proof (cases "?s' = []")
      case True
      have "spec_collapse ?s' = []" by (simp only: True spec_collapse.simps(1))
      then show ?thesis by (simp only: take.simps) simp
    next
      case False
      then have "hd ?s' \<noteq> 0x0A" by (rule hd_dropWhile)
      with hd_collapse [OF False] have "hd (spec_collapse ?s') \<noteq> 0x0A" by simp
      then show ?thesis by (cases "spec_collapse ?s'") auto
    qed
    then have "take 2 (0x0A # spec_collapse ?s') \<noteq> [0x0A, 0x0A]"
      and "take 2 (spec_collapse ?s') \<noteq> [0x0A, 0x0A]"
      by (cases "spec_collapse ?s'"; auto)+
    moreover from True
    have "spec_collapse (c # s) = 0x0A # 0x0A # spec_collapse ?s'" by simp
    ultimately show ?thesis using 2(1) [OF True] by simp
  next
    case False
    have "\<not> (c = 0x0A \<and> take 2 (spec_collapse s) = [0x0A, 0x0A])"
      using False take2_collapse [of s] by blast
    moreover from False have "spec_collapse (c # s) = c # spec_collapse s" by auto
    ultimately show ?thesis using 2(2) [OF False] by auto
  qed
qed

lemma collapse_id: "\<not> has3 s \<Longrightarrow> spec_collapse s = s"
  by (induction s) auto

lemma set_collapse: "set (spec_collapse s) \<subseteq> set s"
proof (induction s rule: spec_collapse.induct)
  case 1
  show ?case by simp
next
  case (2 c s)
  show ?case
  proof (cases "c = 0x0A \<and> take 2 s = [0x0A, 0x0A]")
    case True
    have "set (dropWhile (\<lambda>x. x = 0x0A) s) \<subseteq> set s" using set_dropWhileD by fastforce
    with True 2(1) [OF True] show ?thesis by auto
  next
    case False
    with 2(2) [OF False] show ?thesis by auto
  qed
qed

lemma has3_iff: "has3 s \<longleftrightarrow> (\<exists>a b. s = a @ [0x0A, 0x0A, 0x0A] @ b)"
proof
  assume "has3 s"
  then show "\<exists>a b. s = a @ [0x0A, 0x0A, 0x0A] @ b"
  proof (induction s)
    case Nil
    then show ?case by simp
  next
    case (Cons c s)
    from Cons.prems consider "c = 0x0A" "take 2 s = [0x0A, 0x0A]" | "has3 s" by auto
    then show ?case
    proof cases
      case 1
      then obtain b where "s = 0x0A # 0x0A # b" by (cases s; cases "tl s") auto
      with 1 have "c # s = [] @ [0x0A, 0x0A, 0x0A] @ b" by simp
      then show ?thesis by blast
    next
      case 2
      from Cons.IH [OF this] obtain a b where "s = a @ [0x0A, 0x0A, 0x0A] @ b" by blast
      then have "c # s = (c # a) @ [0x0A, 0x0A, 0x0A] @ b" by simp
      then show ?thesis by blast
    qed
  qed
next
  assume "\<exists>a b. s = a @ [0x0A, 0x0A, 0x0A] @ b"
  then obtain a b where "s = a @ [0x0A, 0x0A, 0x0A] @ b" by blast
  then show "has3 s" by (induction a arbitrary: s) auto
qed

lemma has3_rev: "has3 (rev s) = has3 s"
proof -
  have "\<And>s. has3 s \<Longrightarrow> has3 (rev s)"
  proof -
    fix s :: jsstring assume "has3 s"
    then obtain a b where "s = a @ [0x0A, 0x0A, 0x0A] @ b" unfolding has3_iff by blast
    then have "rev s = rev b @ [0x0A, 0x0A, 0x0A] @ rev a" by simp
    then show "has3 (rev s)" unfolding has3_iff by blast
  qed
  from this [of s] this [of "rev s"] show ?thesis by auto
qed

lemma has3_dropWhile: "has3 (dropWhile P s) \<Longrightarrow> has3 s"
proof -
  assume "has3 (dropWhile P s)"
  then obtain a b where "dropWhile P s = a @ [0x0A, 0x0A, 0x0A] @ b" unfolding has3_iff by blast
  then have "s = (takeWhile P s @ a) @ [0x0A, 0x0A, 0x0A] @ b"
    by (metis append.assoc takeWhile_dropWhile_id)
  then show ?thesis unfolding has3_iff by blast
qed

lemma has3_trim: "has3 (trim s) \<Longrightarrow> has3 s"
  unfolding trim_def by (auto simp: has3_rev dest!: has3_dropWhile)

text \<open>
  Stated from the specification as well: \<open>spec_strip\<close> removes every tag, from an
  opening angle bracket to the next closing one, and \<open>has_tag\<close> says that a string
  holds an opening angle bracket with a closing one after it.
\<close>

function spec_strip :: "jsstring \<Rightarrow> jsstring" where
  "spec_strip [] = []"
| "spec_strip (c # s) =
     (if c = 0x3C
      then (case dropWhile (\<lambda>x. x \<noteq> 0x3E) s of
              [] \<Rightarrow> c # spec_strip s
            | g # rest \<Rightarrow> spec_strip rest)
      else c # spec_strip s)"
  by pat_completeness auto
termination
proof (relation "measure length", goal_cases)
  case 1
  show ?case by simp
next
  case (2 c s)
  show ?case by simp
next
  case (3 c s g rest)
  have "length (dropWhile (\<lambda>x. x \<noteq> 0x3E) s) \<le> length s" by (rule length_dropWhile_le)
  with 3 show ?case by simp
next
  case (4 c s)
  show ?case by simp
qed

fun has_tag :: "jsstring \<Rightarrow> bool" where
  "has_tag [] = False"
| "has_tag (c # s) = ((c = 0x3C \<and> 0x3E \<in> set s) \<or> has_tag s)"









lemma strip_id: "\<not> has_tag s \<Longrightarrow> spec_strip s = s"
proof (induction s)
  case Nil
  show ?case by simp
next
  case (Cons c s)
  show ?case
  proof (cases "c = 0x3C")
    case False
    with Cons show ?thesis by simp
  next
    case True
    with Cons.prems have "0x3E \<notin> set s" by simp
    then have d: "dropWhile (\<lambda>x. x \<noteq> 0x3E) s = []" by (auto simp: dropWhile_eq_Nil_conv)
    from Cons True show ?thesis by (simp add: d)
  qed
qed





lemma rwn_cleanHtmlText_no_markup:
  assumes "0x3C \<notin> set t" and "0x26 \<notin> set t"
  shows "rwn_cleanHtmlText t = trim (spec_collapse t)"
proof (cases "t = []")
  case True
  then show ?thesis by (simp add: rwn_cleanHtmlText_def)
next
  case False
  with assms show ?thesis
    by (simp add: rwn_cleanHtmlText_def Let_def replace_no_lt first_atoms decodeEntities_no_amp
        replace_newlines)
qed

lemma rwn_cleanHtmlText_plain:
  assumes "0x3C \<notin> set t" and "0x26 \<notin> set t"
  shows "rwn_cleanHtmlText (rwn_cleanHtmlText t) = rwn_cleanHtmlText t"
    and "\<not> has3 t \<Longrightarrow> rwn_cleanHtmlText t = trim t"
proof -
  let ?u = "trim (spec_collapse t)"
  have u: "rwn_cleanHtmlText t = ?u" by (rule rwn_cleanHtmlText_no_markup [OF assms])
  from set_trim [of "spec_collapse t"] set_collapse [of t] assms
  have n: "0x3C \<notin> set ?u" "0x26 \<notin> set ?u" by auto
  have "\<not> has3 ?u" using has3_trim not_has3_collapse by blast
  then have "spec_collapse ?u = ?u" by (rule collapse_id)
  with rwn_cleanHtmlText_no_markup [OF n] u
  show "rwn_cleanHtmlText (rwn_cleanHtmlText t) = rwn_cleanHtmlText t" by (simp add: trim_idem)
  show "\<not> has3 t \<Longrightarrow> rwn_cleanHtmlText t = trim t" by (simp add: u collapse_id)
qed

section \<open>The references the decoder reads\<close>


lemma length_js [simp]: "length (js p) = length p"
  by (simp add: js_def)

lemma js_Cons: "js (c # p) = of_char c # js p"
  by (simp add: js_def)

lemma js_Nil: "js [] = []"
  by (simp add: js_def)



lemma ngroups_lits [simp]: "ngroups (lits p) = 0"
  by (induction p) (simp_all add: lits_Cons lits_Nil)

lemma first_atom_lits: "first_atom (lits (c # p)) = Some (Lit (of_char c))"
  by (simp add: lits_Cons)

lemma canon_semicolon [simp]: "canon c = 0x3B \<longleftrightarrow> c = 0x3B" "canon 0x3B = 0x3B"
  by (auto simp: canon_def diff_eq_eq)

lemma canon_hash [simp]: "canon c = 0x23 \<longleftrightarrow> c = 0x23" "canon 0x23 = 0x23"
  by (auto simp: canon_def diff_eq_eq)

lemma atom_match_semicolon [simp]: "atom_match fl (Lit 0x3B) c \<longleftrightarrow> c = 0x3B"
  by (auto simp: eq_commute [of "0x3B"])

lemma atom_match_hash [simp]: "atom_match fl (Lit 0x23) c \<longleftrightarrow> c = 0x23"
  by (auto simp: eq_commute [of "0x23"])

lemma atom_match_amp [simp]: "atom_match fl (Lit 0x26) c \<longleftrightarrow> c = 0x26"
  by (auto simp: eq_commute [of "0x26"])







lemma hex_class_x: "\<not> atom_match fl (Cls [DigitCls]) 0x78"
  by (simp add: is_digit_def)






















lemmas decode_simps = decodeEntities_def rwn_decodeEntities_def mp0_decodeEntities_def
  translate_re_def rwn_translate_re_def numeric_re_def hex_re_def translate_def rwn_translate_def
  translate_lookup_def char_of_digits_def fromCharCode_def parseInt_def to_number_def
  math_int_def digit_value_def Let_def

lemmas clean_simps = cleanHtmlText_def rwn_cleanHtmlText_def script_re_def style_re_def p_re_def
  br_re_def tag_re_def newlines_re_def




section \<open>The claims on the cleaner and the decoder\<close>




text \<open>
  C3 (corrected). The cleaner is not idempotent on arbitrary input: \<open>&amp;lt;\<close> is
  cleaned to \<open>&lt;\<close>, and that to \<open><\<close>, in both modules. And the cleaner of the module
  for readwn.com does not return a plain text trimmed only: of three line breaks
  between \<open>a\<close> and \<open>b\<close> it keeps two.
\<close>

theorem clean_not_idempotent:
  "rwn_cleanHtmlText (rwn_cleanHtmlText (js ''&amp;lt;'')) \<noteq> rwn_cleanHtmlText (js ''&amp;lt;'')
   \<and> cleanHtmlText (cleanHtmlText (js ''&amp;lt;'')) \<noteq> cleanHtmlText (js ''&amp;lt;'')
   \<and> rwn_cleanHtmlText [0x61, 0x0A, 0x0A, 0x0A, 0x62] \<noteq> trim [0x61, 0x0A, 0x0A, 0x0A, 0x62]"
proof -
  have a: "rwn_cleanHtmlText (js ''&amp;lt;'') = js ''&lt;''"
    by (simp add: clean_simps decode_simps eval_simps)
  have b: "rwn_cleanHtmlText (js ''&lt;'') = js ''<''"
    by (simp add: clean_simps decode_simps eval_simps)
  have c: "cleanHtmlText (js ''&amp;lt;'') = js ''&lt;''"
    by (simp add: clean_simps decode_simps eval_simps)
  have d: "cleanHtmlText (js ''&lt;'') = js ''<''"
    by (simp add: clean_simps decode_simps eval_simps)
  have e: "rwn_cleanHtmlText [0x61, 0x0A, 0x0A, 0x0A, 0x62] = [0x61, 0x0A, 0x0A, 0x62]"
    by (simp add: clean_simps decode_simps eval_simps)
  have f: "trim [0x61, 0x0A, 0x0A, 0x0A, 0x62] = [0x61, 0x0A, 0x0A, 0x0A, 0x62]"
    by (simp add: trim_def is_space_def)
  show ?thesis unfolding a b c d e f by (simp add: js_def)
qed

text \<open>
  C3, as amended: for every text \<open>t\<close> without \<open><\<close> and without \<open>&\<close>, \<open>cleanHtmlText\<close> of
  ReadFullNovelV2.js returns \<open>t\<close> trimmed; that of the module for readwn.com returns
  \<open>t\<close> with its runs of three or more line breaks written as two, trimmed, which is
  \<open>t\<close> trimmed when \<open>t\<close> has no such run; and on such a text both are idempotent.
\<close>

theorem clean_plain_text:
  assumes "0x3C \<notin> set t" and "0x26 \<notin> set t"
  shows "cleanHtmlText t = trim t
         \<and> cleanHtmlText (cleanHtmlText t) = cleanHtmlText t
         \<and> rwn_cleanHtmlText t = trim (spec_collapse t)
         \<and> rwn_cleanHtmlText (rwn_cleanHtmlText t) = rwn_cleanHtmlText t
         \<and> (\<not> has3 t \<longrightarrow> rwn_cleanHtmlText t = trim t)"
  using cleanHtmlText_plain [OF assms] rwn_cleanHtmlText_no_markup [OF assms]
    rwn_cleanHtmlText_plain [OF assms]
  by blast

text \<open>C3, the amended statement on the text \<open>Hi\<close> between two spaces.\<close>

theorem clean_plain_text_witness:
  "0x3C \<notin> set (js '' Hi '') \<and> 0x26 \<notin> set (js '' Hi '') \<and> \<not> has3 (js '' Hi '')
   \<and> cleanHtmlText (js '' Hi '') = js ''Hi''
   \<and> rwn_cleanHtmlText (js '' Hi '') = js ''Hi''"
  using clean_plain_text [of "js '' Hi ''"]
  by (simp add: js_def trim_def is_space_def)





end
